theory Spec2Isabelle
  imports Main "HOL-Library.Word" "HOL-Library.AList"
begin

unbundle bit_operations_syntax

section \<open>Python values used by the DNS listener\<close>

text \<open>
  The listener (\<^verbatim>\<open>server/listeners/dns.py\<close>) works on \<^verbatim>\<open>bytes\<close>, \<^verbatim>\<open>str\<close> and
  unbounded integers. A byte is an 8-bit word, a \<^verbatim>\<open>str\<close> is its list of Unicode code
  points, and every exception the code can raise is a value of \<open>exn\<close>; a computation
  that may raise returns \<open>exn + 'a\<close> with \<open>Inl\<close> for the exception.
\<close>

type_synonym byte = "8 word"
type_synonym bytes = "byte list"
type_synonym pystr = "nat list"

datatype exn =
    StructError | IndexError | KeyError | ValueError | BinasciiError
  | UnicodeDecodeError | UnicodeEncodeError | ZeroDivisionError | ExternalError
  | TypeError | AttributeError | ValidationError

definition str_of :: "string \<Rightarrow> pystr" where
  "str_of s = map of_char s"

definition ebind :: "exn + 'a \<Rightarrow> ('a \<Rightarrow> exn + 'b) \<Rightarrow> exn + 'b" where
  "ebind m f = (case m of Inl e \<Rightarrow> Inl e | Inr x \<Rightarrow> f x)"

text \<open>\<^verbatim>\<open>xs[i:j]\<close> for \<open>0 \<le> i\<close>: out-of-range bounds are clipped, never an error.\<close>

definition slice :: "'a list \<Rightarrow> nat \<Rightarrow> nat \<Rightarrow> 'a list" where
  "slice xs i j = take (j - i) (drop i xs)"

subsection \<open>\<^verbatim>\<open>str\<close> methods\<close>

text \<open>
  \<^verbatim>\<open>str.upper\<close> and \<^verbatim>\<open>str.lower\<close> on the ASCII letters. Every \<^verbatim>\<open>str\<close> that reaches
  them in the listener is ASCII: an encoded label comes from \<^verbatim>\<open>b32encode\<close> or from
  \<^verbatim>\<open>decode('ascii')\<close> in \<open>parse_dns_query\<close>.
\<close>

definition py_upper_char :: "nat \<Rightarrow> nat" where
  "py_upper_char c = (if 97 \<le> c \<and> c \<le> 122 then c - 32 else c)"

definition py_lower_char :: "nat \<Rightarrow> nat" where
  "py_lower_char c = (if 65 \<le> c \<and> c \<le> 90 then c + 32 else c)"

definition py_upper :: "pystr \<Rightarrow> pystr" where
  "py_upper s = map py_upper_char s"

definition py_lower :: "pystr \<Rightarrow> pystr" where
  "py_lower s = map py_lower_char s"

definition py_rstrip :: "nat \<Rightarrow> pystr \<Rightarrow> pystr" where
  "py_rstrip c s = rev (dropWhile (\<lambda>x. x = c) (rev s))"

definition py_replace :: "nat \<Rightarrow> nat \<Rightarrow> pystr \<Rightarrow> pystr" where
  "py_replace a b s = map (\<lambda>x. if x = a then b else x) s"

definition EQUALS :: nat where "EQUALS = of_char CHR ''=''"
definition SLASH :: nat where "SLASH = of_char CHR ''/''"
definition HYPHEN :: nat where "HYPHEN = of_char CHR ''-''"
definition DOT :: nat where "DOT = of_char CHR ''.''"

definition AT :: nat where "AT = of_char CHR ''@''"
definition COLON :: nat where "COLON = of_char CHR '':''"
definition UNDERSCORE :: nat where "UNDERSCORE = of_char CHR ''_''"

definition bytes_of :: "string \<Rightarrow> bytes" where
  "bytes_of s = map (\<lambda>c. of_nat (of_char c)) s"

text \<open>\<^verbatim>\<open>s.split(sep)\<close> for a one-character separator: never an empty list.\<close>

fun py_split :: "nat \<Rightarrow> pystr \<Rightarrow> pystr list" where
  "py_split sep [] = [[]]"
| "py_split sep (c # cs) =
     (if c = sep then [] # py_split sep cs
      else case py_split sep cs of p # ps \<Rightarrow> (c # p) # ps | [] \<Rightarrow> [[c]])"

text \<open>\<^verbatim>\<open>sep.join(parts)\<close>\<close>

fun py_join :: "nat \<Rightarrow> pystr list \<Rightarrow> pystr" where
  "py_join sep [] = []"
| "py_join sep [p] = p"
| "py_join sep (p # q # ps) = p @ sep # py_join sep (q # ps)"

definition py_endswith :: "pystr \<Rightarrow> pystr \<Rightarrow> bool" where
  "py_endswith s suffix =
     (length suffix \<le> length s \<and> drop (length s - length suffix) s = suffix)"

text \<open>\<^verbatim>\<open>str(n)\<close> for an integer.\<close>

function nat_digits :: "nat \<Rightarrow> pystr" where
  "nat_digits n = (if n < 10 then [48 + n] else nat_digits (n div 10) @ [48 + n mod 10])"
  by pat_completeness auto
termination
  by (relation "measure id") auto

declare nat_digits.simps [simp del]

definition py_str_int :: "int \<Rightarrow> pystr" where
  "py_str_int i = (if i < 0 then HYPHEN # nat_digits (nat (- i)) else nat_digits (nat i))"

text \<open>
  \<^verbatim>\<open>int(s)\<close> on an ASCII \<^verbatim>\<open>str\<close>: surrounding whitespace is stripped, one sign is
  allowed, then decimal digits with single underscores between digits; anything else
  raises \<^verbatim>\<open>ValueError\<close>. The whitespace that \<^verbatim>\<open>int\<close> skips is the tab, the line feed,
  the vertical tab, the form feed, the carriage return and the space (9 to 13 and 32); the
  separators 28 to 31, which \<^verbatim>\<open>str.isspace\<close> accepts, are not skipped and raise
  \<^verbatim>\<open>ValueError\<close>. (Non-ASCII digits and spaces cannot occur: the strings come from
  ASCII labels and from the configuration.)
\<close>

definition py_isspace :: "nat \<Rightarrow> bool" where
  "py_isspace c = ((9 \<le> c \<and> c \<le> 13) \<or> c = 32)"

definition py_isdigit :: "nat \<Rightarrow> bool" where
  "py_isdigit c = (48 \<le> c \<and> c \<le> 57)"

definition py_strip :: "pystr \<Rightarrow> pystr" where
  "py_strip s = rev (dropWhile py_isspace (rev (dropWhile py_isspace s)))"

fun py_digits :: "nat \<Rightarrow> pystr \<Rightarrow> nat option" where
  "py_digits acc [] = Some acc"
| "py_digits acc [c] = (if py_isdigit c then Some (acc * 10 + (c - 48)) else None)"
| "py_digits acc (c # d # ds) =
     (if py_isdigit c then py_digits (acc * 10 + (c - 48)) (d # ds)
      else if c = UNDERSCORE \<and> py_isdigit d then py_digits (acc * 10 + (d - 48)) ds
      else None)"

definition py_int :: "pystr \<Rightarrow> exn + int" where
  "py_int s =
     (let t = py_strip s;
          (neg, body) = (case t of [] \<Rightarrow> (False, [])
                         | c # r \<Rightarrow> if c = HYPHEN then (True, r)
                                    else if c = 43 then (False, r) else (False, t))
      in case body of
           [] \<Rightarrow> Inl ValueError
         | c # r \<Rightarrow>
             if \<not> py_isdigit c then Inl ValueError
             else case py_digits 0 body of
                    None \<Rightarrow> Inl ValueError
                  | Some n \<Rightarrow> Inr (if neg then - int n else int n))"

subsection \<open>Text codecs\<close>

definition ascii_decode :: "bytes \<Rightarrow> exn + pystr" where
  "ascii_decode bs = (if \<exists>b \<in> set bs. 128 \<le> unat b then Inl UnicodeDecodeError
                      else Inr (map unat bs))"

definition ascii_encode :: "pystr \<Rightarrow> exn + bytes" where
  "ascii_encode s = (if \<exists>c \<in> set s. 128 \<le> c then Inl UnicodeEncodeError
                     else Inr (map of_nat s))"

text \<open>\<^verbatim>\<open>bytes.decode()\<close>: strict UTF-8 (no overlong forms, no surrogates, at most
  U+10FFFF).\<close>

definition utf8_cont :: "nat \<Rightarrow> bool" where
  "utf8_cont b = (128 \<le> b \<and> b \<le> 191)"

definition utf8_second :: "nat \<Rightarrow> nat \<Rightarrow> bool" where
  "utf8_second b0 b1 =
     ((if b0 = 224 then 160 else if b0 = 240 then 144 else 128) \<le> b1
      \<and> b1 \<le> (if b0 = 237 then 159 else if b0 = 244 then 143 else 191))"

fun utf8_points :: "nat list \<Rightarrow> exn + pystr" where
  "utf8_points [] = Inr []"
| "utf8_points (b0 # r) =
     (if b0 < 128 then
        (case utf8_points r of Inl e \<Rightarrow> Inl e | Inr s \<Rightarrow> Inr (b0 # s))
      else if 194 \<le> b0 \<and> b0 \<le> 223 then
        (case r of
           b1 # r1 \<Rightarrow>
             if utf8_cont b1 then
               (case utf8_points r1 of Inl e \<Rightarrow> Inl e
                | Inr s \<Rightarrow> Inr (((b0 - 192) * 64 + (b1 - 128)) # s))
             else Inl UnicodeDecodeError
         | _ \<Rightarrow> Inl UnicodeDecodeError)
      else if 224 \<le> b0 \<and> b0 \<le> 239 then
        (case r of
           b1 # b2 # r2 \<Rightarrow>
             if utf8_second b0 b1 \<and> utf8_cont b2 then
               (case utf8_points r2 of Inl e \<Rightarrow> Inl e
                | Inr s \<Rightarrow> Inr (((b0 - 224) * 4096 + (b1 - 128) * 64 + (b2 - 128)) # s))
             else Inl UnicodeDecodeError
         | _ \<Rightarrow> Inl UnicodeDecodeError)
      else if 240 \<le> b0 \<and> b0 \<le> 244 then
        (case r of
           b1 # b2 # b3 # r3 \<Rightarrow>
             if utf8_second b0 b1 \<and> utf8_cont b2 \<and> utf8_cont b3 then
               (case utf8_points r3 of Inl e \<Rightarrow> Inl e
                | Inr s \<Rightarrow> Inr (((b0 - 240) * 262144 + (b1 - 128) * 4096
                                   + (b2 - 128) * 64 + (b3 - 128)) # s))
             else Inl UnicodeDecodeError
         | _ \<Rightarrow> Inl UnicodeDecodeError)
      else Inl UnicodeDecodeError)"

definition utf8_decode :: "bytes \<Rightarrow> exn + pystr" where
  "utf8_decode bs = utf8_points (map unat bs)"

text \<open>\<^verbatim>\<open>str.encode()\<close>: UTF-8; a surrogate code point cannot be encoded.\<close>

definition utf8_char :: "nat \<Rightarrow> exn + bytes" where
  "utf8_char c =
     (if c < 128 then Inr [of_nat c]
      else if c < 2048 then Inr [of_nat (192 + c div 64), of_nat (128 + c mod 64)]
      else if 55296 \<le> c \<and> c \<le> 57343 then Inl UnicodeEncodeError
      else if c < 65536 then
        Inr [of_nat (224 + c div 4096), of_nat (128 + c div 64 mod 64), of_nat (128 + c mod 64)]
      else if c < 1114112 then
        Inr [of_nat (240 + c div 262144), of_nat (128 + c div 4096 mod 64),
             of_nat (128 + c div 64 mod 64), of_nat (128 + c mod 64)]
      else Inl UnicodeEncodeError)"

fun utf8_encode :: "pystr \<Rightarrow> exn + bytes" where
  "utf8_encode [] = Inr []"
| "utf8_encode (c # cs) =
     ebind (utf8_char c) (\<lambda>b. ebind (utf8_encode cs) (\<lambda>bs. Inr (b @ bs)))"

subsection \<open>\<^verbatim>\<open>struct\<close>\<close>

text \<open>One unsigned big-endian field of \<open>n\<close> bytes (\<^verbatim>\<open>B\<close>, \<^verbatim>\<open>H\<close>, \<^verbatim>\<open>I\<close> for 1, 2, 4):
  a value out of range raises \<^verbatim>\<open>struct.error\<close>.\<close>

definition pack_uint :: "nat \<Rightarrow> int \<Rightarrow> exn + bytes" where
  "pack_uint n v =
     (if 0 \<le> v \<and> v < 256 ^ n then Inr (map (\<lambda>i. of_int (v div 256 ^ i)) (rev [0..<n]))
      else Inl StructError)"

fun pack_fields :: "(nat \<times> int) list \<Rightarrow> exn + bytes" where
  "pack_fields [] = Inr []"
| "pack_fields ((n, v) # fs) =
     ebind (pack_uint n v) (\<lambda>b. ebind (pack_fields fs) (\<lambda>bs. Inr (b @ bs)))"

text \<open>\<^verbatim>\<open>struct.unpack('!H', b)[0]\<close>: the buffer must hold exactly two bytes.\<close>

definition unpack_H :: "bytes \<Rightarrow> exn + int" where
  "unpack_H b = (case b of [hi, lo] \<Rightarrow> Inr (int (unat hi) * 256 + int (unat lo))
                 | _ \<Rightarrow> Inl StructError)"

fun map_exn :: "('a \<Rightarrow> exn + 'b) \<Rightarrow> 'a list \<Rightarrow> exn + 'b list" where
  "map_exn f [] = Inr []"
| "map_exn f (x # xs) = ebind (f x) (\<lambda>y. ebind (map_exn f xs) (\<lambda>ys. Inr (y # ys)))"

subsection \<open>\<^verbatim>\<open>base64.b32encode\<close> and \<^verbatim>\<open>base64.b32decode\<close>\<close>

text \<open>
  The standard library's base32 codec (RFC 4648 alphabet), as \<^verbatim>\<open>base64.py\<close> computes
  it: five bytes are read as one 40-bit big-endian integer \<open>c\<close> and written as four
  pairs of characters, each pair looked up by ten bits of \<open>c\<close>.
  \<open>b32encode\<close> stands for \<^verbatim>\<open>b32encode(s).decode('ascii')\<close>: the encoder's bytes are
  ASCII, so the \<^verbatim>\<open>str\<close> has the same code points.
\<close>

definition b32alphabet :: pystr where
  "b32alphabet = str_of ''ABCDEFGHIJKLMNOPQRSTUVWXYZ234567''"

definition b32tab2 :: "nat \<Rightarrow> pystr" where
  "b32tab2 x = [b32alphabet ! (x div 32), b32alphabet ! (x mod 32)]"

definition from_bytes :: "bytes \<Rightarrow> nat" where
  "from_bytes s = foldl (\<lambda>acc b. acc * 256 + unat b) 0 s"

text \<open>\<^verbatim>\<open>acc.to_bytes(5)\<close>; its argument is below \<open>2 ^ 40\<close> wherever the codec calls it
  (lemma \<open>b32_acc_bound\<close>), so the \<^verbatim>\<open>OverflowError\<close> branch is not modelled.\<close>

definition to_bytes5 :: "nat \<Rightarrow> bytes" where
  "to_bytes5 c = [of_nat (c div 2 ^ 32), of_nat (c div 2 ^ 24), of_nat (c div 2 ^ 16),
                  of_nat (c div 2 ^ 8), of_nat c]"

definition b32_quantum :: "nat \<Rightarrow> pystr" where
  "b32_quantum c = b32tab2 (c div 2 ^ 30) @ b32tab2 ((c div 2 ^ 20) mod 1024)
                 @ b32tab2 ((c div 2 ^ 10) mod 1024) @ b32tab2 (c mod 1024)"

function b32encode_loop :: "bytes \<Rightarrow> pystr" where
  "b32encode_loop s =
     (if s = [] then [] else b32_quantum (from_bytes (take 5 s)) @ b32encode_loop (drop 5 s))"
  by pat_completeness auto
termination
  by (relation "measure length") auto

declare b32encode_loop.simps [simp del]

text \<open>\<^verbatim>\<open>encoded[-n:] = b'=' * n\<close>\<close>

definition set_tail :: "nat \<Rightarrow> pystr \<Rightarrow> pystr" where
  "set_tail n encoded = take (length encoded - n) encoded @ replicate n EQUALS"

definition b32encode :: "bytes \<Rightarrow> pystr" where
  "b32encode s0 =
     (let leftover = length s0 mod 5;
          s = (if leftover \<noteq> 0 then s0 @ replicate (5 - leftover) 0 else s0);
          encoded = b32encode_loop s
      in if leftover = 1 then set_tail 6 encoded
         else if leftover = 2 then set_tail 4 encoded
         else if leftover = 3 then set_tail 3 encoded
         else if leftover = 4 then set_tail 1 encoded
         else encoded)"

definition b32rev :: "nat \<Rightarrow> nat option" where
  "b32rev = map_of (zip b32alphabet [0..<32])"

text \<open>One quantum: \<^verbatim>\<open>for c in quanta: acc = (acc << 5) + b32rev[c]\<close>, a missing key
  re-raised as \<^verbatim>\<open>binascii.Error\<close>.\<close>

fun b32_acc :: "nat \<Rightarrow> pystr \<Rightarrow> exn + nat" where
  "b32_acc acc [] = Inr acc"
| "b32_acc acc (c # cs) =
     (case b32rev c of None \<Rightarrow> Inl BinasciiError | Some d \<Rightarrow> b32_acc (acc * 32 + d) cs)"

text \<open>The loop over the quanta, with the loop variables \<open>decoded\<close> and \<open>acc\<close> (the
  last one is read after the loop).\<close>

function b32decode_loop :: "pystr \<Rightarrow> bytes \<Rightarrow> nat \<Rightarrow> exn + (bytes \<times> nat)" where
  "b32decode_loop s decoded acc =
     (if s = [] then Inr (decoded, acc)
      else case b32_acc 0 (take 8 s) of
             Inl e \<Rightarrow> Inl e
           | Inr acc' \<Rightarrow> b32decode_loop (drop 8 s) (decoded @ to_bytes5 acc') acc')"
  by pat_completeness auto
termination
  by (relation "measure (\<lambda>(s, decoded, acc). length s)") auto

declare b32decode_loop.simps [simp del]

definition b32decode :: "pystr \<Rightarrow> exn + bytes" where
  "b32decode s0 =
     (if \<exists>c \<in> set s0. 128 \<le> c then Inl ValueError
      else if length s0 mod 8 \<noteq> 0 then Inl BinasciiError
      else
        let l = length s0;
            s = py_rstrip EQUALS s0;
            padchars = l - length s
        in case b32decode_loop s [] 0 of
             Inl e \<Rightarrow> Inl e
           | Inr (decoded, acc) \<Rightarrow>
               if padchars \<notin> {0, 1, 3, 4, 6} then Inl BinasciiError
               else if padchars \<noteq> 0 \<and> decoded \<noteq> [] then
                 let last = to_bytes5 (acc * 2 ^ (5 * padchars));
                     leftover = (43 - 5 * padchars) div 8
                 in Inr (take (length decoded - 5) decoded @ take leftover last)
               else Inr decoded)"

section \<open>The label encoder\<close>

definition encode_data :: "bytes \<Rightarrow> pystr" where
  "encode_data data =
     (let encoded = py_lower (b32encode data);
          encoded = py_rstrip EQUALS encoded;
          encoded = py_replace SLASH HYPHEN encoded
      in encoded)"

definition decode_data :: "pystr \<Rightarrow> exn + bytes" where
  "decode_data encoded =
     (let padding = (8 - length encoded mod 8) mod 8;
          encoded = py_upper encoded @ replicate padding EQUALS;
          encoded = py_replace HYPHEN SLASH encoded
      in b32decode encoded)"

section \<open>The listener: configuration and state\<close>

text \<open>
  \<open>listener_config\<close> holds what \<^verbatim>\<open>__init__\<close> reads from \<^verbatim>\<open>configuration\<close>; the defaults
  are \<open>default_config\<close>. \<open>listener_state\<close> holds the three dictionaries of the
  listener and, in \<open>database\<close>, the external store its handlers call into. Time is a
  parameter \<open>now\<close>, the value of \<^verbatim>\<open>datetime.utcnow()\<close> in microseconds.
\<close>

record listener_config =
  domain :: pystr
  ns_records :: "pystr list"
  soa_email :: pystr
  ttl :: int
  chunk_size :: int
  response_ip :: pystr

definition default_config :: listener_config where
  "default_config =
     \<lparr>domain = str_of ''example.com'',
      ns_records = [str_of ''ns1.example.com'', str_of ''ns2.example.com''],
      soa_email = str_of ''admin.example.com'',
      ttl = 300, chunk_size = 50, response_ip = str_of ''127.0.0.1''\<rparr>"

definition max_label_length :: nat where
  "max_label_length = 63"

text \<open>One entry of \<^verbatim>\<open>incoming_messages\<close>. \<open>chunks\<close> is a Python \<^verbatim>\<open>dict\<close> from chunk
  number to chunk bytes, kept as an association list in insertion order so that
  \<^verbatim>\<open>len\<close> is \<open>length\<close>.\<close>

record buffer =
  chunks :: "(int \<times> bytes) list"
  total_chunks :: int
  timestamp :: int

record 'db listener_state =
  incoming_messages :: "pystr \<rightharpoonup> buffer"
  outgoing_messages :: "pystr \<rightharpoonup> pystr list"
  agent_sessions :: "int \<rightharpoonup> pystr"
  database :: 'db

definition initial_state :: "'db \<Rightarrow> 'db listener_state" where
  "initial_state db =
     \<lparr>incoming_messages = Map.empty, outgoing_messages = Map.empty,
      agent_sessions = Map.empty, database = db\<rparr>"

subsection \<open>JSON values and the result schema\<close>

text \<open>
  What \<^verbatim>\<open>json.loads\<close> returns: \<^verbatim>\<open>None\<close>, a \<^verbatim>\<open>bool\<close>, an \<^verbatim>\<open>int\<close>, a \<^verbatim>\<open>float\<close>
  (kept as the text of its literal; nothing here reads it), a \<^verbatim>\<open>str\<close>, a \<^verbatim>\<open>list\<close>
  or a \<^verbatim>\<open>dict\<close> with \<^verbatim>\<open>str\<close> keys. A \<^verbatim>\<open>dict\<close> is the list of its items, read
  with \<open>map_of\<close>.
\<close>

datatype json =
    JNone | JBool bool | JInt int | JFloat pystr | JStr pystr
  | JList "json list" | JDict "(pystr \<times> json) list"

text \<open>\<^verbatim>\<open>value = d.pop(key)\<close>: the value and the \<^verbatim>\<open>dict\<close> without the key. A missing key
  raises \<^verbatim>\<open>KeyError\<close>; \<^verbatim>\<open>list.pop\<close> wants an integer and raises \<^verbatim>\<open>TypeError\<close>; the
  other values have no \<^verbatim>\<open>pop\<close> and raise \<^verbatim>\<open>AttributeError\<close>.\<close>

definition json_pop :: "json \<Rightarrow> pystr \<Rightarrow> exn + (json \<times> json)" where
  "json_pop d key =
     (case d of
        JDict items \<Rightarrow>
          (case map_of items key of
             None \<Rightarrow> Inl KeyError
           | Some v \<Rightarrow> Inr (v, JDict (AList.delete key items)))
      | JList xs \<Rightarrow> Inl TypeError
      | _ \<Rightarrow> Inl AttributeError)"

text \<open>
  \<^verbatim>\<open>core/schemas.py\<close>:
  \<^verbatim>\<open>class TaskResult(BaseModel): task_id: str; status: str = "completed";\<close>
  \<^verbatim>\<open>result: Optional[str] = None; error: Optional[str] = None\<close>.
  \<open>TaskResult validate_str kwargs\<close> is \<^verbatim>\<open>TaskResult(**kwargs)\<close>: \<^verbatim>\<open>task_id\<close> has no
  default, so a \<^verbatim>\<open>dict\<close> without it raises \<^verbatim>\<open>ValidationError\<close>; \<^verbatim>\<open>**\<close> of a value that
  is no mapping raises \<^verbatim>\<open>TypeError\<close>.
\<close>

record task_result =
  tr_task_id :: pystr
  tr_status :: pystr
  tr_result :: "pystr option"
  tr_error :: "pystr option"

definition optional_str :: "(json \<Rightarrow> exn + pystr) \<Rightarrow> json option \<Rightarrow> exn + pystr option" where
  "optional_str validate_str v =
     (case v of
        None \<Rightarrow> Inr None
      | Some JNone \<Rightarrow> Inr None
      | Some x \<Rightarrow> ebind (validate_str x) (\<lambda>s. Inr (Some s)))"

definition TaskResult :: "(json \<Rightarrow> exn + pystr) \<Rightarrow> json \<Rightarrow> exn + task_result" where
  "TaskResult validate_str kwargs =
     (case kwargs of
        JDict items \<Rightarrow>
          (case map_of items (str_of ''task_id'') of
             None \<Rightarrow> Inl ValidationError
           | Some t \<Rightarrow>
               ebind (validate_str t) (\<lambda>task_id.
               ebind (case map_of items (str_of ''status'') of
                        None \<Rightarrow> Inr (str_of ''completed'')
                      | Some s \<Rightarrow> validate_str s) (\<lambda>status.
               ebind (optional_str validate_str (map_of items (str_of ''result''))) (\<lambda>result.
               ebind (optional_str validate_str (map_of items (str_of ''error''))) (\<lambda>error.
                 Inr \<lparr>tr_task_id = task_id, tr_status = status,
                      tr_result = result, tr_error = error\<rparr>)))))
      | _ \<Rightarrow> Inl TypeError)"

subsection \<open>The external calls\<close>

text \<open>
  The calls that leave the listener. Each takes the store and returns the new store
  with its result or the exception it raised.
  \<^item> \<open>agent_checkin\<close>: \<^verbatim>\<open>json.loads\<close>, \<^verbatim>\<open>AgentCheckIn(**agent_info)\<close> and
    \<^verbatim>\<open>agent_checkin(checkin_data, db)\<close>; the result carries
    \<^verbatim>\<open>result.get('agent_id')\<close> and the outcome of \<^verbatim>\<open>json.dumps({...}).encode()\<close>.
  \<^item> \<open>pull_task\<close>: the query for one pending task of the agent, marking it sent, and
    \<^verbatim>\<open>json.dumps({...}).encode()\<close> of it; the result is \<^verbatim>\<open>task.id\<close> with the
    serialized task.
  \<^item> \<open>json_loads\<close>: \<^verbatim>\<open>json.loads\<close> on the reassembled result, whatever it parses.
  \<^item> \<open>validate_str\<close>: the validation of one \<^verbatim>\<open>str\<close> field of a schema.
  \<^item> \<open>submit_task_result\<close>: \<^verbatim>\<open>submit_task_result(task_id, result_data, db)\<close> of
    \<^verbatim>\<open>api/tasks.py\<close>.
  \<^item> \<open>touch_agent\<close>: the beacon's update of \<^verbatim>\<open>agent.last_seen\<close>.
  \<^item> \<open>utc_offset\<close>: the offset from UTC, in microseconds, that the local time zone has
    at a naive time value.
  Opening and closing a session (\<^verbatim>\<open>SessionLocal()\<close>, \<^verbatim>\<open>db.close()\<close>) is taken to leave
  the store as it is.
\<close>

record checkin_result =
  cr_agent_id :: "pystr option"
  cr_response :: "exn + bytes"

record 'db env =
  agent_checkin :: "bytes \<Rightarrow> 'db \<Rightarrow> (exn + checkin_result) \<times> 'db"
  pull_task :: "pystr \<Rightarrow> int \<Rightarrow> 'db \<Rightarrow> (exn + (pystr \<times> bytes) option) \<times> 'db"
  json_loads :: "bytes \<Rightarrow> exn + json"
  validate_str :: "json \<Rightarrow> exn + pystr"
  submit_task_result :: "json \<Rightarrow> task_result \<Rightarrow> 'db \<Rightarrow> (exn + unit) \<times> 'db"
  touch_agent :: "pystr \<Rightarrow> int \<Rightarrow> 'db \<Rightarrow> (exn + unit) \<times> 'db"
  utc_offset :: "int \<Rightarrow> int"

section \<open>Chunking\<close>

text \<open>\<^verbatim>\<open>while chunk_domain: parts.append(chunk_domain[:63]); chunk_domain = chunk_domain[63:]\<close>\<close>

function label_parts :: "pystr \<Rightarrow> pystr list" where
  "label_parts chunk_domain =
     (if chunk_domain = [] then []
      else take max_label_length chunk_domain # label_parts (drop max_label_length chunk_domain))"
  by pat_completeness auto
termination
  by (relation "measure length") (auto simp: max_label_length_def)

declare label_parts.simps [simp del]

definition chunk_name :: "int \<Rightarrow> pystr \<Rightarrow> int \<Rightarrow> bytes \<Rightarrow> nat \<Rightarrow> pystr" where
  "chunk_name cs message_id n_total data i =
     (let chunk = slice data i (i + nat cs);
          encoded_chunk = encode_data chunk;
          chunk_domain = message_id @ [DOT] @ py_str_int (int i div cs) @ [DOT]
                         @ py_str_int n_total @ [DOT] @ encoded_chunk
      in if length chunk_domain > max_label_length
         then py_join DOT (label_parts chunk_domain)
         else chunk_domain)"

text \<open>\<^verbatim>\<open>for i in range(0, len(data), self.chunk_size)\<close>, from index \<open>i\<close> on.\<close>

function split_from :: "int \<Rightarrow> pystr \<Rightarrow> int \<Rightarrow> bytes \<Rightarrow> nat \<Rightarrow> pystr list" where
  "split_from cs message_id n_total data i =
     (if 0 < cs \<and> i < length data
      then chunk_name cs message_id n_total data i # split_from cs message_id n_total data (i + nat cs)
      else [])"
  by pat_completeness auto
termination
  by (relation "measure (\<lambda>(cs, message_id, n_total, data, i). length data - i)") auto

declare split_from.simps [simp del]

definition split_data :: "listener_config \<Rightarrow> bytes \<Rightarrow> pystr \<Rightarrow> exn + pystr list" where
  "split_data cfg data message_id =
     (let cs = chunk_size cfg in
      if cs = 0 then Inl ZeroDivisionError
      else let n_total = (int (length data) + cs - 1) div cs
           in Inr (split_from cs message_id n_total data 0))"

section \<open>The wire codec\<close>

type_synonym question = "pystr \<times> int \<times> int"
type_synonym answer = "pystr \<times> int \<times> int \<times> int \<times> bytes"

definition DNS_A :: int where "DNS_A = 1"
definition DNS_NS :: int where "DNS_NS = 2"
definition DNS_SOA :: int where "DNS_SOA = 6"
definition DNS_TXT :: int where "DNS_TXT = 16"
definition DNS_IN :: int where "DNS_IN = 1"

text \<open>The \<^verbatim>\<open>while True\<close> loop that reads one name. \<^verbatim>\<open>data[offset]\<close> past the end raises
  \<^verbatim>\<open>IndexError\<close>; a label slice that runs past the end is cut short, not an error; a
  compression pointer ends the name without being followed.\<close>

function parse_name :: "bytes \<Rightarrow> nat \<Rightarrow> pystr list \<Rightarrow> exn + (pystr list \<times> nat)" where
  "parse_name data offset domain_parts =
     (if length data \<le> offset then Inl IndexError
      else
        let len = data ! offset; offset1 = offset + 1 in
        if len = 0 then Inr (domain_parts, offset1)
        else if len AND 0xC0 = 0xC0 then
          (case unpack_H (slice data (offset1 - 1) (offset1 + 1)) of
             Inl e \<Rightarrow> Inl e
           | Inr pointer \<Rightarrow> Inr (domain_parts, offset1 + 1))
        else
          (case ascii_decode (slice data offset1 (offset1 + unat len)) of
             Inl e \<Rightarrow> Inl e
           | Inr label \<Rightarrow> parse_name data (offset1 + unat len) (domain_parts @ [label])))"
  by pat_completeness auto
termination
  by (relation "measure (\<lambda>(data, offset, domain_parts). length data - offset)") auto

declare parse_name.simps [simp del]

fun parse_questions :: "bytes \<Rightarrow> nat \<Rightarrow> nat \<Rightarrow> exn + question list" where
  "parse_questions data 0 offset = Inr []"
| "parse_questions data (Suc n) offset =
     (case parse_name data offset [] of
        Inl e \<Rightarrow> Inl e
      | Inr (domain_parts, off) \<Rightarrow>
          ebind (unpack_H (slice data off (off + 2))) (\<lambda>qtype.
          ebind (unpack_H (slice data (off + 2) (off + 4))) (\<lambda>qclass.
          ebind (parse_questions data n (off + 4)) (\<lambda>qs.
          Inr ((py_join DOT domain_parts, qtype, qclass) # qs)))))"

definition parse_dns_query :: "bytes \<Rightarrow> exn + (int \<times> question list)" where
  "parse_dns_query data =
     ebind (unpack_H (slice data 0 2)) (\<lambda>transaction_id.
     ebind (unpack_H (slice data 2 4)) (\<lambda>flags.
     ebind (unpack_H (slice data 4 6)) (\<lambda>qdcount.
     ebind (parse_questions data (nat qdcount) 12) (\<lambda>questions.
     Inr (transaction_id, questions)))))"

text \<open>\<open>encode_domain\<close>: the length-prefixed labels of a name; empty labels are skipped.\<close>

fun encode_parts :: "pystr list \<Rightarrow> exn + bytes" where
  "encode_parts [] = Inr []"
| "encode_parts (part # parts) =
     (if part \<noteq> [] then
        ebind (pack_uint 1 (int (length part))) (\<lambda>l.
        ebind (ascii_encode part) (\<lambda>p.
        ebind (encode_parts parts) (\<lambda>rest. Inr (l @ p @ rest))))
      else encode_parts parts)"

definition encode_domain :: "pystr \<Rightarrow> exn + bytes" where
  "encode_domain name = ebind (encode_parts (py_split DOT name)) (\<lambda>encoded. Inr (encoded @ [0]))"

text \<open>The question section, written the same way by \<open>build_dns_response\<close> and
  \<open>build_nxdomain_response\<close>.\<close>

fun encode_questions :: "question list \<Rightarrow> exn + bytes" where
  "encode_questions [] = Inr []"
| "encode_questions ((name, qtype, qclass) # qs) =
     ebind (encode_domain name) (\<lambda>n.
     ebind (pack_fields [(2, qtype), (2, qclass)]) (\<lambda>tc.
     ebind (encode_questions qs) (\<lambda>rest. Inr (n @ tc @ rest))))"

fun encode_answers :: "answer list \<Rightarrow> exn + bytes" where
  "encode_answers [] = Inr []"
| "encode_answers ((name, rtype, rclass, rttl, rdata) # as) =
     ebind (pack_fields [(2, rtype), (2, rclass), (4, rttl), (2, int (length rdata))]) (\<lambda>h.
     ebind (encode_answers as) (\<lambda>rest. Inr ([0xC0, 0x0C] @ h @ rdata @ rest)))"

definition build_dns_response :: "int \<Rightarrow> question list \<Rightarrow> answer list \<Rightarrow> exn + bytes" where
  "build_dns_response transaction_id questions answers =
     ebind (pack_fields [(2, transaction_id), (2, 0x8180), (2, int (length questions)),
                         (2, int (length answers)), (2, 0), (2, 0)]) (\<lambda>header.
     ebind (encode_questions questions) (\<lambda>question_data.
     ebind (encode_answers answers) (\<lambda>answer_data.
     Inr (header @ question_data @ answer_data))))"

definition build_nxdomain_response :: "int \<Rightarrow> question list \<Rightarrow> exn + bytes" where
  "build_nxdomain_response transaction_id questions =
     ebind (pack_fields [(2, transaction_id), (2, 0x8183), (2, int (length questions)),
                         (2, 0), (2, 0), (2, 0)]) (\<lambda>header.
     ebind (encode_questions questions) (\<lambda>question_data.
     Inr (header @ question_data)))"

definition build_servfail_response :: "bytes \<Rightarrow> exn + bytes" where
  "build_servfail_response transaction_id_bytes =
     ebind (unpack_H transaction_id_bytes) (\<lambda>transaction_id.
     pack_fields [(2, transaction_id), (2, 0x8182), (2, 0), (2, 0), (2, 0), (2, 0)])"

text \<open>\<open>build_txt_response\<close>: runs of at most 255 bytes, each behind its length byte.\<close>

function build_txt_response :: "bytes \<Rightarrow> bytes" where
  "build_txt_response data =
     (if data = [] then []
      else of_nat (length (take 255 data)) # take 255 data @ build_txt_response (drop 255 data))"
  by pat_completeness auto
termination
  by (relation "measure length") auto

declare build_txt_response.simps [simp del]

definition build_error_response :: bytes where
  "build_error_response = build_txt_response (bytes_of ''ERROR'')"

text \<open>
  \<^verbatim>\<open>serial = int(datetime.utcnow().timestamp())\<close>: \<^verbatim>\<open>timestamp()\<close> reads the naive value
  of \<^verbatim>\<open>utcnow()\<close> as a time of the local zone, so the offset of that zone is taken off,
  and \<^verbatim>\<open>int\<close> truncates toward zero.
\<close>

definition trunc_div :: "int \<Rightarrow> int \<Rightarrow> int" where
  "trunc_div a b = (if a < 0 then - ((- a) div b) else a div b)"

definition build_soa_record :: "'db env \<Rightarrow> listener_config \<Rightarrow> int \<Rightarrow> exn + bytes" where
  "build_soa_record ev cfg now =
     (case ns_records cfg of
        [] \<Rightarrow> Inl IndexError
      | ns # _ \<Rightarrow>
          ebind (encode_domain ns) (\<lambda>mname.
          ebind (encode_domain (py_replace AT DOT (soa_email cfg))) (\<lambda>rname.
          let serial = trunc_div (now - utc_offset ev now) 1000000 in
          ebind (pack_fields [(4, serial), (4, 7200), (4, 3600), (4, 1209600), (4, 3600)])
            (\<lambda>params. Inr (mname @ rname @ params)))))"

section \<open>The query handlers\<close>

text \<open>
  A handler returns the TXT payload (\<open>None\<close> where the Python returns \<^verbatim>\<open>None\<close>) or the
  exception that leaves it, together with the state after the call: what it stored
  before raising stays stored.
\<close>

type_synonym 'db handler_result = "(exn + bytes option) \<times> 'db listener_state"

definition truthy :: "pystr option \<Rightarrow> bool" where
  "truthy v = (case v of None \<Rightarrow> False | Some a \<Rightarrow> a \<noteq> [])"

definition handle_checkin_query ::
  "'db env \<Rightarrow> pystr list \<Rightarrow> int \<Rightarrow> 'db listener_state \<Rightarrow> 'db handler_result" where
  "handle_checkin_query ev parts transaction_id st =
     (if length parts < 2 then (Inr (Some build_error_response), st)
      else
        case decode_data (py_join DOT parts) of
          Inl e \<Rightarrow> (Inr (Some build_error_response), st)
        | Inr agent_data \<Rightarrow>
            (case agent_checkin ev agent_data (database st) of
               (Inl e, db') \<Rightarrow> (Inr (Some build_error_response), st\<lparr>database := db'\<rparr>)
             | (Inr result, db') \<Rightarrow>
                 let st1 = st\<lparr>database := db'\<rparr>;
                     st2 = (if truthy (cr_agent_id result)
                            then st1\<lparr>agent_sessions :=
                                   (agent_sessions st1)(transaction_id \<mapsto> the (cr_agent_id result))\<rparr>
                            else st1)
                 in case cr_response result of
                      Inl e \<Rightarrow> (Inr (Some build_error_response), st2)
                    | Inr response_data \<Rightarrow> (Inr (Some (build_txt_response response_data)), st2)))"

text \<open>The agent id of a task query: the session bound to the transaction id, or else
  the first part of the query decoded.\<close>

definition resolve_agent_id :: "'db listener_state \<Rightarrow> int \<Rightarrow> pystr list \<Rightarrow> exn + pystr" where
  "resolve_agent_id st transaction_id parts =
     (if truthy (agent_sessions st transaction_id)
      then Inr (the (agent_sessions st transaction_id))
      else ebind (decode_data (parts ! 0)) utf8_decode)"

definition handle_task_query ::
  "'db env \<Rightarrow> listener_config \<Rightarrow> pystr list \<Rightarrow> int \<Rightarrow> int \<Rightarrow> 'db listener_state
     \<Rightarrow> 'db handler_result" where
  "handle_task_query ev cfg parts transaction_id now st =
     (if length parts < 1 then (Inr (Some build_error_response), st)
      else
        case resolve_agent_id st transaction_id parts of
          Inl e \<Rightarrow> (Inr (Some build_error_response), st)
        | Inr agent_id \<Rightarrow>
            (case pull_task ev agent_id now (database st) of
               (Inl e, db') \<Rightarrow> (Inl e, st\<lparr>database := db'\<rparr>)
             | (Inr None, db') \<Rightarrow>
                 (Inr (Some (build_txt_response (bytes_of ''NOTASK''))), st\<lparr>database := db'\<rparr>)
             | (Inr (Some (task_id, task_data)), db') \<Rightarrow>
                 let st1 = st\<lparr>database := db'\<rparr> in
                 if length task_data > 200 then
                   let message_id = str_of ''t'' @ take 8 task_id in
                   case split_data cfg task_data message_id of
                     Inl e \<Rightarrow> (Inl e, st1)
                   | Inr chs \<Rightarrow>
                       let st2 = st1\<lparr>outgoing_messages :=
                                     (outgoing_messages st1)(agent_id \<mapsto> chs)\<rparr>
                       in case utf8_encode (str_of ''MULTI:'' @ message_id @ [COLON]
                                            @ py_str_int (int (length chs))) of
                            Inl e \<Rightarrow> (Inl e, st2)
                          | Inr marker \<Rightarrow> (Inr (Some (build_txt_response marker)), st2)
                 else (Inr (Some (build_txt_response task_data)), st1)))"

text \<open>\<^verbatim>\<open>for i in range(total_chunks): full_data += chunks[i]\<close>; a missing index raises
  \<^verbatim>\<open>KeyError\<close>.\<close>

definition reassemble :: "(int \<times> bytes) list \<Rightarrow> int \<Rightarrow> exn + bytes" where
  "reassemble chs n_total =
     ebind (map_exn (\<lambda>i. case map_of chs (int i) of None \<Rightarrow> Inl KeyError | Some c \<Rightarrow> Inr c)
              [0..<nat n_total])
       (\<lambda>cs. Inr (concat cs))"

text \<open>The fields of a result query (\<^verbatim>\<open>message_id\<close>, \<^verbatim>\<open>chunk_num\<close>, \<^verbatim>\<open>total_chunks\<close>,
  \<^verbatim>\<open>chunk_data\<close>), read in the source's order; any exception here is caught by the outer
  \<^verbatim>\<open>except\<close> before the state is touched.\<close>

definition result_fields :: "pystr list \<Rightarrow> exn + (pystr \<times> int \<times> int \<times> bytes)" where
  "result_fields parts =
     (let message_id = parts ! 0 in
      ebind (py_int (parts ! 1)) (\<lambda>chunk_num.
      ebind (py_int (parts ! 2)) (\<lambda>n_total.
      ebind (if length parts > 3 then decode_data (py_join DOT (drop 3 parts)) else Inr [])
        (\<lambda>chunk_data. Inr (message_id, chunk_num, n_total, chunk_data)))))"

text \<open>The buffer of \<open>message_id\<close> after the chunk is stored: created on the first chunk,
  then \<^verbatim>\<open>['chunks'][chunk_num] = chunk_data\<close>.\<close>

definition store_chunk ::
  "'db listener_state \<Rightarrow> pystr \<Rightarrow> int \<Rightarrow> int \<Rightarrow> bytes \<Rightarrow> int \<Rightarrow> buffer" where
  "store_chunk st message_id chunk_num n_total chunk_data now =
     (let buf0 = (case incoming_messages st message_id of
                    None \<Rightarrow> \<lparr>chunks = [], total_chunks = n_total, timestamp = now\<rparr>
                  | Some b \<Rightarrow> b)
      in buf0\<lparr>chunks := AList.update chunk_num chunk_data (chunks buf0)\<rparr>)"

text \<open>
  The inner \<^verbatim>\<open>try\<close> of \<open>handle_result_query\<close>, up to the submission:
  \<^verbatim>\<open>result = json.loads(full_data)\<close>, \<^verbatim>\<open>task_id = result.pop('task_id')\<close>,
  \<^verbatim>\<open>result_data = TaskResult(**result)\<close>,
  \<^verbatim>\<open>await submit_task_result(task_id, result_data, db)\<close>.
\<close>

definition process_result :: "'db env \<Rightarrow> bytes \<Rightarrow> 'db \<Rightarrow> (exn + unit) \<times> 'db" where
  "process_result ev full_data db =
     (case json_loads ev full_data of
        Inl e \<Rightarrow> (Inl e, db)
      | Inr loaded \<Rightarrow>
          (case json_pop loaded (str_of ''task_id'') of
             Inl e \<Rightarrow> (Inl e, db)
           | Inr (task_id, result) \<Rightarrow>
               (case TaskResult (validate_str ev) result of
                  Inl e \<Rightarrow> (Inl e, db)
                | Inr result_data \<Rightarrow> submit_task_result ev task_id result_data db)))"

definition handle_result_query ::
  "'db env \<Rightarrow> pystr list \<Rightarrow> int \<Rightarrow> int \<Rightarrow> 'db listener_state \<Rightarrow> 'db handler_result" where
  "handle_result_query ev parts transaction_id now st =
     (if length parts < 3 then (Inr (Some build_error_response), st)
      else
        case result_fields parts of
          Inl e \<Rightarrow> (Inr (Some build_error_response), st)
        | Inr (message_id, chunk_num, n_total, chunk_data) \<Rightarrow>
            let buf = store_chunk st message_id chunk_num n_total chunk_data now;
                st1 = st\<lparr>incoming_messages := (incoming_messages st)(message_id \<mapsto> buf)\<rparr>
            in if int (length (chunks buf)) = n_total then
                 case reassemble (chunks buf) n_total of
                   Inl e \<Rightarrow> (Inr (Some build_error_response), st1)
                 | Inr full_data \<Rightarrow>
                     (case process_result ev full_data (database st1) of
                        (Inl e, db') \<Rightarrow>
                          (Inr (Some build_error_response), st1\<lparr>database := db'\<rparr>)
                      | (Inr ok, db') \<Rightarrow>
                          (Inr (Some (build_txt_response (bytes_of ''ACK''))),
                           st1\<lparr>incoming_messages := (incoming_messages st1)(message_id := None),
                               database := db'\<rparr>))
               else
                 case utf8_encode (str_of ''CHUNK:'' @ py_str_int chunk_num) of
                   Inl e \<Rightarrow> (Inr (Some build_error_response), st1)
                 | Inr ack \<Rightarrow> (Inr (Some (build_txt_response ack)), st1))"

definition handle_beacon_query ::
  "'db env \<Rightarrow> pystr list \<Rightarrow> int \<Rightarrow> int \<Rightarrow> 'db listener_state \<Rightarrow> 'db handler_result" where
  "handle_beacon_query ev parts transaction_id now st =
     (if truthy (agent_sessions st transaction_id) then
        case touch_agent ev (the (agent_sessions st transaction_id)) now (database st) of
          (Inl e, db') \<Rightarrow> (Inl e, st\<lparr>database := db'\<rparr>)
        | (Inr ok, db') \<Rightarrow>
            (Inr (Some (build_txt_response (bytes_of ''PONG''))), st\<lparr>database := db'\<rparr>)
      else (Inr (Some (build_txt_response (bytes_of ''PONG''))), st))"

definition handle_data_query ::
  "pystr list \<Rightarrow> int \<Rightarrow> 'db listener_state \<Rightarrow> 'db handler_result" where
  "handle_data_query parts transaction_id st = (Inr None, st)"

definition handle_agent_query ::
  "'db env \<Rightarrow> listener_config \<Rightarrow> pystr \<Rightarrow> int \<Rightarrow> int \<Rightarrow> int \<Rightarrow> 'db listener_state
     \<Rightarrow> 'db handler_result" where
  "handle_agent_query ev cfg name qtype transaction_id now st =
     (let suffix = DOT # domain cfg in
      if \<not> py_endswith name suffix then (Inr None, st)
      else
        let subdomain = take (length name - (length suffix + 1)) name in
        if subdomain = [] then (Inr None, st)
        else
          let parts = py_split DOT subdomain in
          if parts ! 0 = str_of ''checkin'' then
            handle_checkin_query ev (drop 1 parts) transaction_id st
          else if parts ! 0 = str_of ''task'' then
            handle_task_query ev cfg (drop 1 parts) transaction_id now st
          else if parts ! 0 = str_of ''result'' then
            handle_result_query ev (drop 1 parts) transaction_id now st
          else if parts ! 0 = str_of ''beacon'' then
            handle_beacon_query ev (drop 1 parts) transaction_id now st
          else handle_data_query parts transaction_id st)"

section \<open>The dispatcher\<close>

text \<open>\<^verbatim>\<open>struct.pack('!BBBB', *map(int, ip.split('.')))\<close>\<close>

definition response_ip_bytes :: "pystr \<Rightarrow> exn + bytes" where
  "response_ip_bytes ip =
     ebind (map_exn py_int (py_split DOT ip)) (\<lambda>ns.
       if length ns \<noteq> 4 then Inl StructError else pack_fields (map (\<lambda>n. (1, n)) ns))"

text \<open>The body of the loop over the questions: the answers one question appends.\<close>

definition answer_question ::
  "'db env \<Rightarrow> listener_config \<Rightarrow> int \<Rightarrow> int \<Rightarrow> question \<Rightarrow> 'db listener_state
     \<Rightarrow> (exn + answer list) \<times> 'db listener_state" where
  "answer_question ev cfg now transaction_id q st =
     (case q of (name, qtype, qclass) \<Rightarrow>
        if qclass \<noteq> DNS_IN then (Inr [], st)
        else if qtype = DNS_A then
          (case response_ip_bytes (response_ip cfg) of
             Inl e \<Rightarrow> (Inl e, st)
           | Inr ip_bytes \<Rightarrow> (Inr [(name, DNS_A, DNS_IN, ttl cfg, ip_bytes)], st))
        else if qtype = DNS_TXT then
          (case handle_agent_query ev cfg name qtype transaction_id now st of
             (Inl e, st') \<Rightarrow> (Inl e, st')
           | (Inr response_data, st') \<Rightarrow>
               (Inr (case response_data of
                       None \<Rightarrow> []
                     | Some d \<Rightarrow> if d \<noteq> [] then [(name, DNS_TXT, DNS_IN, ttl cfg, d)] else []),
                st'))
        else if qtype = DNS_NS then
          (case map_exn encode_domain (ns_records cfg) of
             Inl e \<Rightarrow> (Inl e, st)
           | Inr ns_datas \<Rightarrow>
               (Inr (map (\<lambda>ns_data. (name, DNS_NS, DNS_IN, ttl cfg, ns_data)) ns_datas), st))
        else if qtype = DNS_SOA then
          (case build_soa_record ev cfg now of
             Inl e \<Rightarrow> (Inl e, st)
           | Inr soa_data \<Rightarrow> (Inr [(name, DNS_SOA, DNS_IN, ttl cfg, soa_data)], st))
        else (Inr [], st))"

fun process_questions ::
  "'db env \<Rightarrow> listener_config \<Rightarrow> int \<Rightarrow> int \<Rightarrow> question list \<Rightarrow> 'db listener_state
     \<Rightarrow> (exn + answer list) \<times> 'db listener_state" where
  "process_questions ev cfg now transaction_id [] st = (Inr [], st)"
| "process_questions ev cfg now transaction_id (q # qs) st =
     (case answer_question ev cfg now transaction_id q st of
        (Inl e, st') \<Rightarrow> (Inl e, st')
      | (Inr answers, st') \<Rightarrow>
          (case process_questions ev cfg now transaction_id qs st' of
             (Inl e, st'') \<Rightarrow> (Inl e, st'')
           | (Inr later, st'') \<Rightarrow> (Inr (answers @ later), st'')))"

text \<open>The \<^verbatim>\<open>try\<close> block of \<open>process_query\<close>.\<close>

definition process_query_body ::
  "'db env \<Rightarrow> listener_config \<Rightarrow> bytes \<Rightarrow> int \<Rightarrow> 'db listener_state
     \<Rightarrow> (exn + bytes) \<times> 'db listener_state" where
  "process_query_body ev cfg data now st =
     (case parse_dns_query data of
        Inl e \<Rightarrow> (Inl e, st)
      | Inr (transaction_id, questions) \<Rightarrow>
          (case process_questions ev cfg now transaction_id questions st of
             (Inl e, st') \<Rightarrow> (Inl e, st')
           | (Inr answers, st') \<Rightarrow>
               (if answers \<noteq> [] then build_dns_response transaction_id questions answers
                else build_nxdomain_response transaction_id questions, st')))"

text \<open>\<open>process_query\<close>: an exception of the body is answered with
  \<open>build_servfail_response (data[:2])\<close>, whose own exception leaves the function.\<close>

definition process_query ::
  "'db env \<Rightarrow> listener_config \<Rightarrow> bytes \<Rightarrow> int \<Rightarrow> 'db listener_state
     \<Rightarrow> (exn + bytes) \<times> 'db listener_state" where
  "process_query ev cfg data now st =
     (case process_query_body ev cfg data now st of
        (Inl e, st') \<Rightarrow> (build_servfail_response (take 2 data), st')
      | (Inr response, st') \<Rightarrow> (Inr response, st'))"

text \<open>\<open>DNSProtocol._handle_query\<close>: the datagram sent back, if any.\<close>

definition handle_datagram ::
  "'db env \<Rightarrow> listener_config \<Rightarrow> bytes \<Rightarrow> int \<Rightarrow> 'db listener_state
     \<Rightarrow> bytes option \<times> 'db listener_state" where
  "handle_datagram ev cfg data now st =
     (case process_query ev cfg data now st of
        (Inl e, st') \<Rightarrow> (None, st')
      | (Inr response, st') \<Rightarrow> (if response \<noteq> [] then Some response else None, st'))"

section \<open>The periodic sweep\<close>




section \<open>Auxiliary definitions for the proofs and the scenarios\<close>

definition b32_digits :: "nat \<Rightarrow> nat list" where
  "b32_digits c = [c div 2 ^ 35, c div 2 ^ 30 mod 32, c div 2 ^ 25 mod 32, c div 2 ^ 20 mod 32,
     c div 2 ^ 15 mod 32, c div 2 ^ 10 mod 32, c div 2 ^ 5 mod 32, c mod 32]"

definition b32chr :: "nat \<Rightarrow> nat" where
  "b32chr d = b32alphabet ! d"

definition b32_finish :: "nat \<Rightarrow> bytes \<Rightarrow> nat \<Rightarrow> exn + bytes" where
  "b32_finish padchars decoded acc =
     (if padchars \<notin> {0, 1, 3, 4, 6} then Inl BinasciiError
      else if padchars \<noteq> 0 \<and> decoded \<noteq> [] then
        Inr (take (length decoded - 5) decoded
             @ take ((43 - 5 * padchars) div 8) (to_bytes5 (acc * 2 ^ (5 * padchars))))
      else Inr decoded)"

definition low_chars :: "nat list \<Rightarrow> pystr" where
  "low_chars ds = map (\<lambda>d. py_lower_char (b32chr d)) ds"

definition label_alphabet :: pystr where
  "label_alphabet = str_of ''abcdefghijklmnopqrstuvwxyz234567''"

text \<open>A store for the scenarios: the pending tasks (agent id, task id, serialized task) and
  the results submitted so far.\<close>

type_synonym demo_db = "(pystr \<times> pystr \<times> bytes) list \<times> task_result list"

text \<open>The result document \<^verbatim>\<open>{"task_id":"t1"}\<close> and what \<^verbatim>\<open>json.loads\<close> makes of it.\<close>

definition demo_payload :: bytes where
  "demo_payload = [123, 34, 116, 97, 115, 107, 95, 105, 100, 34, 58, 34, 116, 49, 34, 125]"

definition demo_document :: json where
  "demo_document = JDict [(str_of ''task_id'', JStr (str_of ''t1''))]"

text \<open>The environment of the scenarios. Its \<open>json_loads\<close> reads the one document above and
  refuses every other payload that occurs here (\<^verbatim>\<open>abc\<close> and its repetitions are no JSON);
  a \<^verbatim>\<open>str\<close> field takes a JSON string; a submission is appended to the store; the local
  zone is UTC.\<close>

definition demo_env :: "demo_db env" where
  "demo_env =
     \<lparr>agent_checkin = (\<lambda>agent_data db. (Inl ExternalError, db)),
      pull_task = (\<lambda>agent_id now db.
         case find (\<lambda>t. fst t = agent_id) (fst db) of
           None \<Rightarrow> (Inr None, db)
         | Some t \<Rightarrow> (Inr (Some (snd t)), (remove1 t (fst db), snd db))),
      json_loads = (\<lambda>full_data. if full_data = demo_payload then Inr demo_document
                                   else Inl ValueError),
      validate_str = (\<lambda>v. case v of JStr s \<Rightarrow> Inr s | _ \<Rightarrow> Inl ValidationError),
      submit_task_result = (\<lambda>task_id result_data db. (Inr (), (fst db, snd db @ [result_data]))),
      touch_agent = (\<lambda>agent_id now db. (Inr (), db)),
      utc_offset = (\<lambda>now. 0)\<rparr>"


definition demo_task :: "nat \<Rightarrow> pystr \<times> pystr \<times> bytes" where
  "demo_task n = (str_of ''abc'', str_of ''0a1b2c3d-demo'', replicate n 65)"

definition demo_state :: "nat \<Rightarrow> demo_db listener_state" where
  "demo_state n = initial_state ([demo_task n], [])"

text \<open>Result queries of the scenarios: chunk 0 of message \<^verbatim>\<open>m1\<close>, of \<open>n_total\<close> chunks,
  with the payload \<^verbatim>\<open>abc\<close>; and the one-chunk message that carries the result document.\<close>

definition result_parts :: "string \<Rightarrow> pystr list" where
  "result_parts n_total = [str_of ''m1'', str_of ''0'', str_of n_total, str_of ''mfrgg'']"

definition document_parts :: "pystr list" where
  "document_parts = [str_of ''m1'', str_of ''0'', str_of ''1'', encode_data demo_payload]"

text \<open>The state with the complete buffer of the result document.\<close>

definition demo_complete :: "demo_db listener_state" where
  "demo_complete = (demo_state 0)\<lparr>incoming_messages := (incoming_messages (demo_state 0))
      (str_of ''m1'' \<mapsto> \<lparr>chunks = [(0, demo_payload)], total_chunks = 1, timestamp = 0\<rparr>)\<rparr>"

definition demo_partial :: "demo_db listener_state" where
  "demo_partial = (demo_state 0)\<lparr>incoming_messages :=
      [str_of ''m1'' \<mapsto> \<lparr>chunks = [(0, [97, 98, 99])], total_chunks = 2, timestamp = 0\<rparr>]\<rparr>"

text \<open>A TXT question for \<^verbatim>\<open>taskx.example.com\<close>, class IN, transaction id 0x1234.\<close>

definition taskx_query :: bytes where
  "taskx_query =
     [0x12, 0x34, 0x01, 0x00, 0, 1, 0, 0, 0, 0, 0, 0]
     @ [5] @ bytes_of ''taskx'' @ [7] @ bytes_of ''example'' @ [3] @ bytes_of ''com'' @ [0]
     @ [0, 16, 0, 1]"

text \<open>The response to it: flags 0x8180 (no error), one answer, a TXT record \<^verbatim>\<open>ERROR\<close>.\<close>

definition taskx_response :: bytes where
  "taskx_response =
     [0x12, 0x34, 0x81, 0x80, 0, 1, 0, 1, 0, 0, 0, 0]
     @ [5] @ bytes_of ''taskx'' @ [7] @ bytes_of ''example'' @ [3] @ bytes_of ''com'' @ [0]
     @ [0, 16, 0, 1]
     @ [0xC0, 0x0C, 0, 16, 0, 1, 0, 0, 1, 44, 0, 6] @ [5] @ bytes_of ''ERROR''"




text \<open>Two states that differ at most in \<open>outgoing_messages\<close>.\<close>

definition same_but_queue :: "'db listener_state \<Rightarrow> 'db listener_state \<Rightarrow> bool" where
  "same_but_queue s t =
     (incoming_messages s = incoming_messages t \<and> agent_sessions s = agent_sessions t
      \<and> database s = database t)"

text \<open>The scenario of the multi-chunk task: a task of 600 bytes is pending for agent
  \<^verbatim>\<open>abc\<close>, with 50 bytes per chunk. The agent polls with a TXT question for
  \<^verbatim>\<open>task.mfrggx.example.com\<close>, class IN, transaction id 7 (\<^verbatim>\<open>mfrgg\<close> is the encoded
  agent id; \<open>handle_agent_query\<close> drops the character after it).\<close>

definition task_poll_query :: bytes where
  "task_poll_query =
     [0, 7, 0x01, 0x00, 0, 1, 0, 0, 0, 0, 0, 0]
     @ [4] @ bytes_of ''task'' @ [6] @ bytes_of ''mfrggx'' @ [7] @ bytes_of ''example''
     @ [3] @ bytes_of ''com'' @ [0]
     @ [0, 16, 0, 1]"

text \<open>The response with one TXT answer holding \<open>payload\<close>.\<close>

definition task_poll_response :: "bytes \<Rightarrow> bytes" where
  "task_poll_response payload =
     [0, 7, 0x81, 0x80, 0, 1, 0, 1, 0, 0, 0, 0]
     @ [4] @ bytes_of ''task'' @ [6] @ bytes_of ''mfrggx'' @ [7] @ bytes_of ''example''
     @ [3] @ bytes_of ''com'' @ [0]
     @ [0, 16, 0, 1]
     @ [0xC0, 0x0C, 0, 16, 0, 1, 0, 0, 1, 44, 0, of_nat (length payload + 1)]
     @ [of_nat (length payload)] @ payload"

text \<open>The state after the first poll.\<close>

definition demo_after_multi :: "demo_db listener_state" where
  "demo_after_multi =
     snd (process_query demo_env default_config task_poll_query 0 (demo_state 600))"

section \<open>Base 32: the arithmetic of one quantum\<close>

lemma mod1024_div32: "(x mod 1024) div 32 = (x div 32) mod (32::nat)"
proof -
  have "x mod 1024 = 32 * (x div 32 mod 32) + x mod 32"
    using mod_mult2_eq [of x 32 32] by simp
  then show ?thesis by simp
qed

lemma mod1024_mod32: "(x mod 1024) mod 32 = x mod (32::nat)"
  by (rule mod_mod_cancel) simp

lemma div_div32: "(c::nat) div m div 32 = c div (m * 32)"
  by (simp add: div_mult2_eq)

lemma acc_step: "(c::nat) div (m * 32) * 32 + c div m mod 32 = c div m"
  by (simp add: div_mult2_eq)

lemma unat_byte_less: "unat (b :: byte) < 256"
  using unsigned_less [of b, where 'a = nat] by simp

lemma byte_div: "(a * 256 + unat (b :: byte)) div 256 = a"
  using unat_byte_less [of b] by simp

lemma byte_of: "(of_nat (a * 256 + unat b) :: byte) = b"
proof -
  have "unat (of_nat (a * 256 + unat b) :: byte) = (a * 256 + unat b) mod 2 ^ LENGTH(8)"
    by (rule unat_of_nat)
  also have "\<dots> = unat b"
    using unat_byte_less [of b] by simp
  finally show ?thesis
    by (simp only: word_unat_eq_iff)
qed

lemma b32_quantum_digits: "b32_quantum c = map ((!) b32alphabet) (b32_digits c)"
proof -
  have 1: "c div 2 ^ 30 div 32 = c div 2 ^ 35" "c div 2 ^ 20 div 32 = c div 2 ^ 25"
    "c div 2 ^ 10 div 32 = c div 2 ^ 15" "c div 32 = c div 2 ^ 5"
    by (simp_all add: div_div32)
  show ?thesis
    unfolding b32_quantum_def b32tab2_def b32_digits_def
    by (simp only: mod1024_div32 mod1024_mod32 1 list.map append.simps)
qed

lemma b32_digits_bound: "c < 2 ^ 40 \<Longrightarrow> \<forall>d \<in> set (b32_digits c). d < 32"
proof -
  assume "c < 2 ^ 40"
  then have "c < 32 * 2 ^ 35" by simp
  then have "c div 2 ^ 35 < 32" by (rule less_mult_imp_div_less)
  then show ?thesis by (simp add: b32_digits_def)
qed

lemma b32_digits_length: "length (b32_digits c) = 8"
  by (simp add: b32_digits_def)

lemma acc_steps:
  "c div 34359738368 * 32 + c div 1073741824 mod 32 = c div (1073741824::nat)"
  "c div 1073741824 * 32 + c div 33554432 mod 32 = c div (33554432::nat)"
  "c div 33554432 * 32 + c div 1048576 mod 32 = c div (1048576::nat)"
  "c div 1048576 * 32 + c div 32768 mod 32 = c div (32768::nat)"
  "c div 32768 * 32 + c div 1024 mod 32 = c div (1024::nat)"
  "c div 1024 * 32 + c div 32 mod 32 = c div (32::nat)"
  using acc_step [of c 1073741824] acc_step [of c 33554432] acc_step [of c 1048576]
      acc_step [of c 32768] acc_step [of c 1024] acc_step [of c 32]
  by (simp_all only: mult_numeral_left_semiring_numeral numeral_times_numeral arith_simps)

lemma b32_digits_acc2:
  "foldl (\<lambda>a d. a * 32 + d) 0 (take 2 (b32_digits c)) = c div 2 ^ 30"
  unfolding b32_digits_def by (simp add: acc_steps)

lemma b32_digits_acc4:
  "foldl (\<lambda>a d. a * 32 + d) 0 (take 4 (b32_digits c)) = c div 2 ^ 20"
  unfolding b32_digits_def by (simp add: acc_steps)

lemma b32_digits_acc8:
  "foldl (\<lambda>a d. a * 32 + d) 0 (b32_digits c) = c"
  unfolding b32_digits_def by (simp add: acc_steps)

section \<open>Base 32: the alphabet and the decoding loop\<close>

lemma b32alphabet_length: "length b32alphabet = 32"
  by (simp add: b32alphabet_def str_of_def)

lemma b32alphabet_distinct: "distinct b32alphabet"
  by (simp add: b32alphabet_def str_of_def)

lemma b32rev_nth: "d < 32 \<Longrightarrow> b32rev (b32alphabet ! d) = Some d"
proof -
  assume d: "d < 32"
  have "map_of (zip b32alphabet [0..<32]) (b32alphabet ! d) = Some ([0..<32] ! d)"
    by (rule map_of_zip_nth) (use d in \<open>simp_all add: b32alphabet_length b32alphabet_distinct\<close>)
  with d show ?thesis by (simp add: b32rev_def)
qed

lemma b32alphabet_chars:
  "\<forall>c \<in> set b32alphabet. c < 128 \<and> c \<noteq> EQUALS \<and> c \<noteq> HYPHEN \<and> c \<noteq> SLASH
      \<and> py_upper_char c = c \<and> py_upper_char (py_lower_char c) = c
      \<and> py_lower_char c \<noteq> EQUALS \<and> py_lower_char c \<noteq> SLASH \<and> py_lower_char c < 128"
  by (simp add: b32alphabet_def str_of_def EQUALS_def HYPHEN_def SLASH_def
        py_upper_char_def py_lower_char_def)

lemma py_rstrip_append:
  assumes "c \<notin> set X" shows "py_rstrip c (X @ Y) = X @ py_rstrip c Y"
proof (cases "\<forall>y \<in> set Y. y = c")
  case True
  then have 1: "dropWhile (\<lambda>x. x = c) (rev Y) = []" by simp
  have "dropWhile (\<lambda>x. x = c) (rev Y @ rev X) = dropWhile (\<lambda>x. x = c) (rev X)"
    using True by (simp add: dropWhile_append)
  also have "\<dots> = rev X"
    using assms by (cases "rev X") (auto simp: dropWhile_eq_self_iff)
  finally show ?thesis using 1 by (simp add: py_rstrip_def)
next
  case False
  then have "dropWhile (\<lambda>x. x = c) (rev Y @ rev X) = dropWhile (\<lambda>x. x = c) (rev Y) @ rev X"
    by (auto simp: dropWhile_append)
  then show ?thesis by (simp add: py_rstrip_def)
qed

lemma py_rstrip_replicate: "py_rstrip c (replicate n c) = []"
  by (simp add: py_rstrip_def)

lemma py_rstrip_Nil: "py_rstrip c [] = []"
  by (simp add: py_rstrip_def)

lemma b32chr_facts:
  assumes "d < 32"
  shows "b32chr d < 128" "b32chr d \<noteq> EQUALS" "b32chr d \<noteq> HYPHEN" "b32chr d \<noteq> SLASH"
    "py_upper_char (b32chr d) = b32chr d" "py_upper_char (py_lower_char (b32chr d)) = b32chr d"
    "py_lower_char (b32chr d) \<noteq> EQUALS" "py_lower_char (b32chr d) \<noteq> SLASH"
    "b32rev (b32chr d) = Some d"
proof -
  have "b32chr d \<in> set b32alphabet"
    using assms by (simp add: b32chr_def b32alphabet_length)
  with b32alphabet_chars show "b32chr d < 128" "b32chr d \<noteq> EQUALS" "b32chr d \<noteq> HYPHEN"
    "b32chr d \<noteq> SLASH"
    "py_upper_char (b32chr d) = b32chr d" "py_upper_char (py_lower_char (b32chr d)) = b32chr d"
    "py_lower_char (b32chr d) \<noteq> EQUALS" "py_lower_char (b32chr d) \<noteq> SLASH"
    by blast+
  show "b32rev (b32chr d) = Some d"
    using assms by (simp add: b32chr_def b32rev_nth)
qed

lemma b32_acc_digits:
  "\<forall>d \<in> set ds. d < 32 \<Longrightarrow> b32_acc a (map b32chr ds) = Inr (foldl (\<lambda>a d. a * 32 + d) a ds)"
  by (induction ds arbitrary: a) (simp_all add: b32chr_facts)

lemma b32decode_loop_acc:
  "b32decode_loop s d a =
     (case b32decode_loop s [] 0 of Inl e \<Rightarrow> Inl e
      | Inr (d', a') \<Rightarrow> Inr (d @ d', if s = [] then a else a'))"
proof (induction "length s" arbitrary: s d a rule: less_induct)
  case less
  show ?case
  proof (cases "s = []")
    case True
    then show ?thesis by (subst (1 2) b32decode_loop.simps) simp
  next
    case False
    show ?thesis
    proof (cases "b32_acc 0 (take 8 s)")
      case (Inl e)
      with False show ?thesis by (subst (1 2) b32decode_loop.simps) simp
    next
      case (Inr acc')
      have a: "b32decode_loop s d a = b32decode_loop (drop 8 s) (d @ to_bytes5 acc') acc'"
        using False Inr by (subst b32decode_loop.simps) simp
      have b: "b32decode_loop s [] 0 = b32decode_loop (drop 8 s) (to_bytes5 acc') acc'"
        using False Inr by (subst b32decode_loop.simps) simp
      have len: "length (drop 8 s) < length s"
        using False by simp
      show ?thesis
        unfolding a b using False
        by (subst (1 2) less.hyps [OF len]) (auto split: sum.splits)
    qed
  qed
qed

lemma b32decode_loop_nonempty:
  assumes "b32decode_loop s [] 0 = Inr (d, a)" "s \<noteq> []"
  shows "5 \<le> length d"
proof (cases "b32_acc 0 (take 8 s)")
  case (Inl e)
  with assms show ?thesis by (subst (asm) b32decode_loop.simps) simp
next
  case (Inr acc')
  have "b32decode_loop s [] 0 = b32decode_loop (drop 8 s) (to_bytes5 acc') acc'"
    using assms(2) Inr by (subst b32decode_loop.simps) simp
  with assms(1) show ?thesis
    by (subst (asm) b32decode_loop_acc) (auto split: sum.splits simp: to_bytes5_def)
qed

lemma b32decode_unfold:
  "b32decode s0 =
     (if \<exists>c \<in> set s0. 128 \<le> c then Inl ValueError
      else if length s0 mod 8 \<noteq> 0 then Inl BinasciiError
      else case b32decode_loop (py_rstrip EQUALS s0) [] 0 of
             Inl e \<Rightarrow> Inl e
           | Inr (decoded, acc) \<Rightarrow>
               b32_finish (length s0 - length (py_rstrip EQUALS s0)) decoded acc)"
  unfolding b32decode_def b32_finish_def Let_def by (rule refl)

lemma to_bytes5_nonempty: "to_bytes5 x \<noteq> []"
  by (simp add: to_bytes5_def)

lemma b32decode_quantum_append:
  assumes len: "length ds = 8" and ds: "\<forall>d \<in> set ds. d < 32"
    and Y: "b32decode Y = Inr r"
  shows "b32decode (map b32chr ds @ Y) = Inr (to_bytes5 (foldl (\<lambda>a d. a * 32 + d) 0 ds) @ r)"
proof -
  define X where "X = map b32chr ds"
  define a where "a = foldl (\<lambda>a d. a * 32 + d) 0 ds"
  define sY where "sY = py_rstrip EQUALS Y"
  define pc where "pc = length Y - length sY"
  have asciiY: "\<not> (\<exists>c \<in> set Y. 128 \<le> c)" and lenY: "length Y mod 8 = 0"
    using Y by (auto simp: b32decode_unfold split: if_splits)
  obtain dY aY where loopY: "b32decode_loop sY [] 0 = Inr (dY, aY)"
    using Y asciiY lenY
    by (cases "b32decode_loop sY [] 0") (auto simp: b32decode_unfold sY_def)
  from Y have fin: "b32_finish pc dY aY = Inr r"
    unfolding b32decode_unfold sY_def [symmetric] pc_def [symmetric]
    using asciiY lenY loopY by simp
  have pcs: "pc \<in> {0, 1, 3, 4, 6}"
    using fin unfolding b32_finish_def by (simp split: if_splits)
  have r: "r = (if pc \<noteq> 0 \<and> dY \<noteq> []
                then take (length dY - 5) dY @ take ((43 - 5 * pc) div 8) (to_bytes5 (aY * 2 ^ (5 * pc)))
                else dY)"
    using fin pcs unfolding b32_finish_def by (auto split: if_splits)
  have Xlen: "length X = 8" by (simp add: X_def len)
  have Xascii: "\<forall>c \<in> set X. c < 128" and Xeq: "EQUALS \<notin> set X"
    using ds by (auto simp: X_def b32chr_facts b32chr_facts(2) [symmetric])
  have accX: "b32_acc 0 X = Inr a"
    unfolding X_def a_def using ds by (rule b32_acc_digits)
  have strip: "py_rstrip EQUALS (X @ Y) = X @ sY"
    unfolding sY_def using Xeq by (rule py_rstrip_append)
  have loopXY: "b32decode_loop (X @ sY) [] 0 = Inr (to_bytes5 a @ dY, if sY = [] then a else aY)"
  proof -
    have "X \<noteq> []" using Xlen by auto
    then have "b32decode_loop (X @ sY) [] 0 = b32decode_loop sY (to_bytes5 a) a"
      using accX Xlen by (subst b32decode_loop.simps) simp
    also have "\<dots> = Inr (to_bytes5 a @ dY, if sY = [] then a else aY)"
      by (subst b32decode_loop_acc) (simp add: loopY)
    finally show ?thesis .
  qed
  have sYlen: "length sY \<le> length Y"
    by (simp add: sY_def py_rstrip_def) (metis length_dropWhile_le length_rev)
  have pc': "length (X @ Y) - length (X @ sY) = pc"
    using sYlen by (simp add: pc_def)
  have nonempty: "sY \<noteq> []" if "pc \<noteq> 0"
  proof
    assume "sY = []"
    then have "pc = length Y" by (simp add: pc_def)
    with pcs lenY that show False by auto
  qed
  have dYlen: "5 \<le> length dY" if "pc \<noteq> 0"
    using b32decode_loop_nonempty [OF loopY nonempty [OF that]] .
  have asciiXY: "\<not> (\<exists>c \<in> set (X @ Y). 128 \<le> c)"
    using asciiY Xascii by auto
  have lenXY: "length (X @ Y) mod 8 = 0"
    using lenY Xlen by simp
  have "b32decode (X @ Y) =
      (if pc \<noteq> 0 then Inr (take (length (to_bytes5 a @ dY) - 5) (to_bytes5 a @ dY)
            @ take ((43 - 5 * pc) div 8) (to_bytes5 ((if sY = [] then a else aY) * 2 ^ (5 * pc))))
       else Inr (to_bytes5 a @ dY))"
    unfolding b32decode_unfold strip pc' loopXY b32_finish_def using asciiXY lenXY pcs
    by (simp del: set_append length_append add: to_bytes5_nonempty)
  also have "\<dots> = Inr (to_bytes5 a @ r)"
  proof (cases "pc = 0")
    case True
    then show ?thesis by (simp add: r)
  next
    case False
    have 5: "length (to_bytes5 a) = 5" by (simp add: to_bytes5_def)
    from False dYlen nonempty have "5 \<le> length dY" "sY \<noteq> []" "dY \<noteq> []" by auto
    then show ?thesis using False by (simp add: r 5)
  qed
  finally show ?thesis by (simp add: X_def a_def)
qed

lemma b32decode_loop_Nil: "b32decode_loop [] d a = Inr (d, a)"
  by (subst b32decode_loop.simps) simp

lemma b32encode_loop_Nil: "b32encode_loop [] = []"
  by (subst b32encode_loop.simps) simp

lemma b32decode_Nil: "b32decode [] = Inr []"
  by (simp add: b32decode_unfold py_rstrip_Nil b32decode_loop_Nil b32_finish_def)

lemma decode_data_Nil: "decode_data [] = Inr []"
  by (simp add: decode_data_def py_upper_def py_replace_def b32decode_Nil)

lemma encode_data_Nil: "encode_data [] = []"
  by (simp add: encode_data_def b32encode_def b32encode_loop_Nil py_lower_def py_rstrip_Nil
      py_replace_def)

lemma b32decode_tail:
  assumes len: "length ds = k" and k: "k \<in> {2, 4, 5, 7}" and ds: "\<forall>d \<in> set ds. d < 32"
  shows "b32decode (map b32chr ds @ replicate (8 - k) EQUALS) =
     Inr (take ((43 - 5 * (8 - k)) div 8) (to_bytes5 (foldl (\<lambda>a d. a * 32 + d) 0 ds * 2 ^ (5 * (8 - k)))))"
proof -
  define X where "X = map b32chr ds"
  define a where "a = foldl (\<lambda>a d. a * 32 + d) 0 ds"
  have Xlen: "length X = k" by (simp add: X_def len)
  have Xne: "X \<noteq> []" using Xlen k by auto
  have Xascii: "\<forall>c \<in> set X. c < 128" and Xeq: "EQUALS \<notin> set X"
    using ds by (auto simp: X_def b32chr_facts b32chr_facts(2) [symmetric])
  have accX: "b32_acc 0 X = Inr a"
    unfolding X_def a_def using ds by (rule b32_acc_digits)
  have strip: "py_rstrip EQUALS (X @ replicate (8 - k) EQUALS) = X"
    using py_rstrip_append [OF Xeq, of "replicate (8 - k) EQUALS"]
    by (simp add: py_rstrip_replicate)
  have "take 8 X = X" "drop 8 X = []" using Xlen k by auto
  then have loop: "b32decode_loop X [] 0 = Inr (to_bytes5 a, a)"
    using Xne accX by (subst b32decode_loop.simps) (simp add: b32decode_loop_Nil)
  have ascii: "\<not> (\<exists>c \<in> set (X @ replicate (8 - k) EQUALS). 128 \<le> c)"
    using Xascii by (auto simp: EQUALS_def)
  have l8: "length (X @ replicate (8 - k) EQUALS) mod 8 = 0"
    using Xlen k by auto
  have pc: "length (X @ replicate (8 - k) EQUALS) - length X = 8 - k"
    by simp
  have "b32decode (X @ replicate (8 - k) EQUALS) = b32_finish (8 - k) (to_bytes5 a) a"
    unfolding b32decode_unfold strip pc loop using ascii l8
    by (simp del: set_append length_append)
  also have "\<dots> = Inr (take ((43 - 5 * (8 - k)) div 8) (to_bytes5 (a * 2 ^ (5 * (8 - k)))))"
    using k by (auto simp: b32_finish_def to_bytes5_def)
  finally show ?thesis by (simp add: X_def a_def)
qed

lemma from_bytes_snoc: "from_bytes (bs @ [b]) = from_bytes bs * 256 + unat b"
  by (simp add: from_bytes_def)

lemma to_bytes5_from_bytes: "to_bytes5 (from_bytes [b0, b1, b2, b3, b4]) = [b0, b1, b2, b3, b4]"
proof -
  define v1 where "v1 = unat b0"
  define v2 where "v2 = v1 * 256 + unat b1"
  define v3 where "v3 = v2 * 256 + unat b2"
  define v4 where "v4 = v3 * 256 + unat b3"
  define c where "c = v4 * 256 + unat b4"
  have c: "from_bytes [b0, b1, b2, b3, b4] = c"
    by (simp add: from_bytes_def c_def v4_def v3_def v2_def v1_def)
  have d1: "c div 256 = v4" unfolding c_def by (rule byte_div)
  have d2: "v4 div 256 = v3" unfolding v4_def by (rule byte_div)
  have d3: "v3 div 256 = v2" unfolding v3_def by (rule byte_div)
  have d4: "v2 div 256 = v1" unfolding v2_def by (rule byte_div)
  have e1: "c div 2 ^ 8 = v4" using d1 by simp
  have e2: "c div 2 ^ 16 = v3"
    using d1 d2 div_mult2_eq [of c 256 256] by simp
  have e3: "c div 2 ^ 24 = v2"
    using e2 d3 div_mult2_eq [of c "2 ^ 16" 256] by simp
  have e4: "c div 2 ^ 32 = v1"
    using e3 d4 div_mult2_eq [of c "2 ^ 24" 256] by simp
  have o0: "(of_nat c :: byte) = b4" unfolding c_def by (rule byte_of)
  have o1: "(of_nat v4 :: byte) = b3" unfolding v4_def by (rule byte_of)
  have o2: "(of_nat v3 :: byte) = b2" unfolding v3_def by (rule byte_of)
  have o3: "(of_nat v2 :: byte) = b1" unfolding v2_def by (rule byte_of)
  have o4: "(of_nat v1 :: byte) = b0" unfolding v1_def by simp
  show ?thesis
    unfolding c to_bytes5_def e1 e2 e3 e4 o0 o1 o2 o3 o4 by (rule refl)
qed

lemma from_bytes_bound5: "length s = 5 \<Longrightarrow> from_bytes s < 2 ^ 40"
proof -
  assume "length s = 5"
  then obtain b0 b1 b2 b3 b4 where s: "s = [b0, b1, b2, b3, b4]"
    by (auto simp: length_Suc_conv eval_nat_numeral)
  have "unat b0 < 256" "unat b1 < 256" "unat b2 < 256" "unat b3 < 256" "unat b4 < 256"
    by (rule unat_byte_less)+
  then show ?thesis unfolding s from_bytes_def by simp
qed

section \<open>The label encoder: encoding and decoding group by group\<close>

lemma b32_quantum_length: "length (b32_quantum c) = 8"
  by (simp add: b32_quantum_def b32tab2_def)

lemma b32encode_loop_append:
  "length g = 5 \<Longrightarrow> b32encode_loop (g @ s) = b32_quantum (from_bytes g) @ b32encode_loop s"
  by (subst b32encode_loop.simps) auto

lemma b32encode_loop_length: "s \<noteq> [] \<Longrightarrow> 8 \<le> length (b32encode_loop s)"
  by (subst b32encode_loop.simps) (simp add: b32_quantum_length)

lemma set_tail_append: "n \<le> length E \<Longrightarrow> set_tail n (Q @ E) = Q @ set_tail n E"
  by (simp add: set_tail_def)

lemma b32encode_append:
  assumes "length g = 5"
  shows "b32encode (g @ rest) = b32_quantum (from_bytes g) @ b32encode rest"
proof -
  define lo where "lo = length rest mod 5"
  define s where "s = (if lo \<noteq> 0 then rest @ replicate (5 - lo) 0 else rest)"
  have lo: "length (g @ rest) mod 5 = lo"
    using assms by (simp add: lo_def)
  have s: "(if lo \<noteq> 0 then (g @ rest) @ replicate (5 - lo) 0 else g @ rest) = g @ s"
    by (simp add: s_def)
  have ne: "s \<noteq> []" if "lo \<noteq> 0"
    using that by (auto simp: s_def lo_def)
  have t: "set_tail n (b32_quantum (from_bytes g) @ b32encode_loop s)
      = b32_quantum (from_bytes g) @ set_tail n (b32encode_loop s)" if "lo \<noteq> 0" "n \<le> 8" for n
    using b32encode_loop_length [OF ne [OF that(1)]] that(2) by (intro set_tail_append) simp
  have lhs: "b32encode (g @ rest) =
      (let encoded = b32_quantum (from_bytes g) @ b32encode_loop s
       in if lo = 1 then set_tail 6 encoded else if lo = 2 then set_tail 4 encoded
          else if lo = 3 then set_tail 3 encoded else if lo = 4 then set_tail 1 encoded
          else encoded)"
    unfolding b32encode_def lo s Let_def b32encode_loop_append [OF assms] by (rule refl)
  have rhs: "b32encode rest =
      (let encoded = b32encode_loop s
       in if lo = 1 then set_tail 6 encoded else if lo = 2 then set_tail 4 encoded
          else if lo = 3 then set_tail 3 encoded else if lo = 4 then set_tail 1 encoded
          else encoded)"
    unfolding b32encode_def lo_def [symmetric] s_def [symmetric] Let_def by (rule refl)
  show ?thesis
    unfolding lhs rhs Let_def by (simp add: t)
qed

lemma low_chars_facts:
  assumes "\<forall>d \<in> set ds. d < 32"
  shows "EQUALS \<notin> set (low_chars ds)" "py_replace SLASH HYPHEN (low_chars ds) = low_chars ds"
    "py_upper (low_chars ds) = map b32chr ds"
  using assms
  by (auto simp: low_chars_def py_replace_def py_upper_def b32chr_facts
      b32chr_facts(7) [symmetric])

lemma py_lower_quantum:
  "py_lower (b32_quantum c) = low_chars (b32_digits c)"
  by (simp add: b32_quantum_digits py_lower_def low_chars_def b32chr_def)

lemma encode_data_append:
  assumes "length g = 5"
  shows "encode_data (g @ rest) = low_chars (b32_digits (from_bytes g)) @ encode_data rest"
proof -
  have b: "\<forall>d \<in> set (b32_digits (from_bytes g)). d < 32"
    using assms by (intro b32_digits_bound from_bytes_bound5)
  have "py_lower (b32encode (g @ rest)) = low_chars (b32_digits (from_bytes g)) @ py_lower (b32encode rest)"
    by (simp add: b32encode_append [OF assms] py_lower_quantum [symmetric] py_lower_def)
  then show ?thesis
    unfolding encode_data_def Let_def
    by (simp add: py_rstrip_append [OF low_chars_facts(1) [OF b]] py_replace_def
        low_chars_facts(2) [OF b, unfolded py_replace_def])
qed

lemma py_replace_chars:
  "\<forall>d \<in> set ds. d < 32 \<Longrightarrow> py_replace HYPHEN SLASH (map b32chr ds) = map b32chr ds"
  by (auto simp: py_replace_def b32chr_facts)

lemma py_upper_append: "py_upper (a @ b) = py_upper a @ py_upper b"
  by (simp add: py_upper_def)

lemma py_replace_append: "py_replace x y (a @ b) = py_replace x y a @ py_replace x y b"
  by (simp add: py_replace_def)

lemma py_replace_pad: "py_replace HYPHEN SLASH (replicate n EQUALS) = replicate n EQUALS"
  by (simp add: py_replace_def HYPHEN_def EQUALS_def)

lemma decode_data_quantum_append:
  assumes len: "length ds = 8" and ds: "\<forall>d \<in> set ds. d < 32"
    and e: "decode_data e = Inr r"
  shows "decode_data (low_chars ds @ e) = Inr (to_bytes5 (foldl (\<lambda>a d. a * 32 + d) 0 ds) @ r)"
proof -
  define Y where "Y = py_replace HYPHEN SLASH (py_upper e @ replicate ((8 - length e mod 8) mod 8) EQUALS)"
  have Y: "b32decode Y = Inr r"
    using e by (simp add: decode_data_def Y_def Let_def)
  have l: "length (low_chars ds) = 8" by (simp add: low_chars_def len)
  have pad: "(8 - length (low_chars ds @ e) mod 8) mod 8 = (8 - length e mod 8) mod 8"
    using l by simp
  have "decode_data (low_chars ds @ e) = b32decode (map b32chr ds @ Y)"
    unfolding decode_data_def Let_def pad Y_def py_upper_append append_assoc py_replace_append
      low_chars_facts(3) [OF ds] py_replace_chars [OF ds]
    by (rule refl)
  then show ?thesis
    using b32decode_quantum_append [OF len ds Y] by simp
qed

lemma decode_data_tail:
  assumes len: "length ds = k" and k: "k \<in> {2, 4, 5, 7}" and ds: "\<forall>d \<in> set ds. d < 32"
  shows "decode_data (low_chars ds) =
     Inr (take ((43 - 5 * (8 - k)) div 8) (to_bytes5 (foldl (\<lambda>a d. a * 32 + d) 0 ds * 2 ^ (5 * (8 - k)))))"
proof -
  have pad: "(8 - length (low_chars ds) mod 8) mod 8 = 8 - k"
    using len k by (auto simp: low_chars_def)
  have "decode_data (low_chars ds) = b32decode (map b32chr ds @ replicate (8 - k) EQUALS)"
    unfolding decode_data_def Let_def pad py_replace_append
      low_chars_facts(3) [OF ds] py_replace_chars [OF ds] py_replace_pad
    by (rule refl)
  then show ?thesis
    using b32decode_tail [OF len k ds] by simp
qed

lemma b32_digits_acc5:
  "foldl (\<lambda>a d. a * 32 + d) 0 (take 5 (b32_digits c)) = c div 2 ^ 15"
  unfolding b32_digits_def by (simp add: acc_steps)

lemma b32_digits_acc7:
  "foldl (\<lambda>a d. a * 32 + d) 0 (take 7 (b32_digits c)) = c div 2 ^ 5"
  unfolding b32_digits_def by (simp add: acc_steps)

lemma from_bytes_zeros: "from_bytes (p @ replicate n 0) = from_bytes p * 256 ^ n"
proof (induction n)
  case 0
  show ?case by simp
next
  case (Suc n)
  have "from_bytes (p @ replicate (Suc n) 0) = from_bytes ((p @ replicate n 0) @ [0])"
    by (simp add: replicate_append_same)
  also have "\<dots> = from_bytes (p @ replicate n 0) * 256"
    by (simp only: from_bytes_snoc) simp
  finally show ?case by (simp add: Suc.IH)
qed

lemma list5: "length s = 5 \<Longrightarrow> \<exists>b0 b1 b2 b3 b4. s = [b0, b1, b2, b3, b4]"
  by (auto simp: length_Suc_conv eval_nat_numeral)

lemma to_bytes5_from_bytes_any: "length s = 5 \<Longrightarrow> to_bytes5 (from_bytes s) = s"
  using list5 [of s] to_bytes5_from_bytes by auto

lemma py_lower_pad: "py_lower (X @ replicate n EQUALS) = py_lower X @ replicate n EQUALS"
  by (simp add: py_lower_def py_lower_char_def EQUALS_def)

lemma encode_data_short:
  assumes l: "length p = l" and n: "l + n = 5" and k: "k + m = 8"
    and tail: "b32encode p = set_tail m (b32encode_loop (p @ replicate n 0))"
  shows "encode_data p = low_chars (take k (b32_digits (from_bytes (p @ replicate n 0))))"
proof -
  define s where "s = p @ replicate n 0"
  define ds where "ds = b32_digits (from_bytes s)"
  have s5: "length s = 5" using l n by (simp add: s_def)
  have "b32encode_loop (s @ []) = b32_quantum (from_bytes s) @ b32encode_loop []"
    using s5 by (rule b32encode_loop_append)
  then have loop: "b32encode_loop s = b32_quantum (from_bytes s)"
    by (simp add: b32encode_loop_Nil)
  have b: "\<forall>d \<in> set ds. d < 32"
    unfolding ds_def using s5 by (intro b32_digits_bound from_bytes_bound5)
  then have bk: "\<forall>d \<in> set (take k ds). d < 32"
    by (meson in_set_takeD)
  have km: "8 - m = k" using k by arith
  have "py_lower (b32encode p) = py_lower (take k (b32_quantum (from_bytes s))) @ replicate m EQUALS"
    unfolding tail s_def [symmetric] loop set_tail_def
    by (simp add: b32_quantum_length py_lower_pad km)
  also have "py_lower (take k (b32_quantum (from_bytes s))) = low_chars (take k ds)"
    using arg_cong [OF py_lower_quantum [of "from_bytes s"], of "take k"]
    by (simp add: py_lower_def low_chars_def ds_def take_map)
  finally have "py_lower (b32encode p) = low_chars (take k ds) @ replicate m EQUALS" .
  then show ?thesis
    unfolding encode_data_def Let_def s_def [symmetric] ds_def [symmetric]
    using py_rstrip_append [OF low_chars_facts(1) [OF bk], of "replicate m EQUALS"]
    by (simp add: py_rstrip_replicate low_chars_facts(2) [OF bk])
qed

lemma roundtrip_short:
  assumes l: "length p = l" and n: "l + n = 5" and k: "k \<in> {2, 4, 5, 7}"
    and lo: "(43 - 5 * (8 - k)) div 8 = l"
    and tail: "b32encode p = set_tail (8 - k) (b32encode_loop (p @ replicate n 0))"
    and acc: "\<And>c. foldl (\<lambda>a d. a * 32 + d) 0 (take k (b32_digits c)) = c div 2 ^ (5 * (8 - k))"
    and dv: "(2::nat) ^ (5 * (8 - k)) dvd 256 ^ n"
  shows "decode_data (encode_data p) = Inr p"
proof -
  define s where "s = p @ replicate n 0"
  define c where "c = from_bytes s"
  define ds where "ds = take k (b32_digits c)"
  have s5: "length s = 5" using l n by (simp add: s_def)
  have k8: "k + (8 - k) = 8" using k by auto
  have enc: "encode_data p = low_chars ds"
    unfolding ds_def c_def s_def using l n k8 tail by (rule encode_data_short)
  have len: "length ds = k"
    using k by (auto simp: ds_def b32_digits_length)
  have "\<forall>d \<in> set (b32_digits c). d < 32"
    unfolding c_def using s5 by (intro b32_digits_bound from_bytes_bound5)
  then have b: "\<forall>d \<in> set ds. d < 32"
    unfolding ds_def by (meson in_set_takeD)
  have "c = from_bytes p * 256 ^ n"
    by (simp add: c_def s_def from_bytes_zeros)
  then have "2 ^ (5 * (8 - k)) dvd c"
    using dv by simp
  then have restore: "c div 2 ^ (5 * (8 - k)) * 2 ^ (5 * (8 - k)) = c"
    by (rule dvd_div_mult_self)
  have "decode_data (low_chars ds) = Inr (take l (to_bytes5 c))"
    unfolding decode_data_tail [OF len k b] lo
    by (simp only: ds_def acc restore)
  also have "to_bytes5 c = s"
    unfolding c_def using s5 by (rule to_bytes5_from_bytes_any)
  also have "take l s = p"
    by (simp add: s_def l)
  finally show ?thesis by (simp add: enc)
qed

lemma roundtrip_1: "length p = 1 \<Longrightarrow> decode_data (encode_data p) = Inr p"
  by (rule roundtrip_short [where l = 1 and n = 4 and k = 2])
     (simp_all add: b32encode_def b32_digits_acc2)

lemma roundtrip_2: "length p = 2 \<Longrightarrow> decode_data (encode_data p) = Inr p"
  by (rule roundtrip_short [where l = 2 and n = 3 and k = 4])
     (simp_all add: b32encode_def b32_digits_acc4)

lemma roundtrip_3: "length p = 3 \<Longrightarrow> decode_data (encode_data p) = Inr p"
  by (rule roundtrip_short [where l = 3 and n = 2 and k = 5])
     (simp_all add: b32encode_def b32_digits_acc5)

lemma roundtrip_4: "length p = 4 \<Longrightarrow> decode_data (encode_data p) = Inr p"
  by (rule roundtrip_short [where l = 4 and n = 1 and k = 7])
     (simp_all add: b32encode_def b32_digits_acc7)

lemma decode_encode: "decode_data (encode_data p) = Inr p"
proof (induction "length p" arbitrary: p rule: less_induct)
  case less
  consider "length p = 0" | "length p = 1" | "length p = 2" | "length p = 3" | "length p = 4"
    | "5 \<le> length p"
    by linarith
  then show ?case
  proof cases
    case 1
    then show ?thesis by (simp add: encode_data_Nil decode_data_Nil)
  next
    case 2 then show ?thesis by (rule roundtrip_1)
  next
    case 3 then show ?thesis by (rule roundtrip_2)
  next
    case 4 then show ?thesis by (rule roundtrip_3)
  next
    case 5 then show ?thesis by (rule roundtrip_4)
  next
    case 6
    define g where "g = take 5 p"
    define rest where "rest = drop 5 p"
    have p: "p = g @ rest" by (simp add: g_def rest_def)
    have g5: "length g = 5" using 6 by (simp add: g_def)
    have "length rest < length p" using 6 by (simp add: rest_def)
    then have ih: "decode_data (encode_data rest) = Inr rest" by (rule less.hyps)
    have b: "\<forall>d \<in> set (b32_digits (from_bytes g)). d < 32"
      using g5 by (intro b32_digits_bound from_bytes_bound5)
    have "decode_data (encode_data p) =
        Inr (to_bytes5 (foldl (\<lambda>a d. a * 32 + d) 0 (b32_digits (from_bytes g))) @ rest)"
      unfolding p encode_data_append [OF g5]
      using b32_digits_length b ih by (rule decode_data_quantum_append)
    also have "\<dots> = Inr (g @ rest)"
      by (simp only: b32_digits_acc8 to_bytes5_from_bytes_any [OF g5])
    finally show ?thesis by (simp add: p)
  qed
qed

lemma encode_data_short_form:
  assumes "length p \<in> {1, 2, 3, 4}"
  shows "\<exists>k. encode_data p = low_chars (take k (b32_digits (from_bytes (p @ replicate (5 - length p) 0))))"
proof -
  consider "length p = 1" | "length p = 2" | "length p = 3" | "length p = 4"
    using assms by auto
  then show ?thesis
  proof cases
    case 1
    have "encode_data p = low_chars (take 2 (b32_digits (from_bytes (p @ replicate 4 0))))"
      by (rule encode_data_short [where l = 1 and m = 6]) (simp_all add: 1 b32encode_def)
    then show ?thesis using 1 by auto
  next
    case 2
    have "encode_data p = low_chars (take 4 (b32_digits (from_bytes (p @ replicate 3 0))))"
      by (rule encode_data_short [where l = 2 and m = 4]) (simp_all add: 2 b32encode_def)
    then show ?thesis using 2 by auto
  next
    case 3
    have "encode_data p = low_chars (take 5 (b32_digits (from_bytes (p @ replicate 2 0))))"
      by (rule encode_data_short [where l = 3 and m = 3]) (simp_all add: 3 b32encode_def)
    then show ?thesis using 3 by auto
  next
    case 4
    have "encode_data p = low_chars (take 7 (b32_digits (from_bytes (p @ replicate 1 0))))"
      by (rule encode_data_short [where l = 4 and m = 1]) (simp_all add: 4 b32encode_def)
    then show ?thesis using 4 by auto
  qed
qed

lemma encode_data_digits: "\<exists>ds. encode_data p = low_chars ds \<and> (\<forall>d \<in> set ds. d < 32)"
proof (induction "length p" arbitrary: p rule: less_induct)
  case less
  have "length p = 0 \<or> length p = 1 \<or> length p = 2 \<or> length p = 3 \<or> length p = 4
      \<or> 5 \<le> length p"
    by linarith
  then consider "length p = 0" | "length p \<in> {1, 2, 3, 4}" | "5 \<le> length p"
    by auto
  then show ?case
  proof cases
    case 1
    then have "encode_data p = low_chars []" by (simp add: encode_data_Nil low_chars_def)
    then show ?thesis by fastforce
  next
    case 2
    then obtain k where k: "encode_data p =
        low_chars (take k (b32_digits (from_bytes (p @ replicate (5 - length p) 0))))"
      using encode_data_short_form by blast
    have "length (p @ replicate (5 - length p) 0) = 5" using 2 by auto
    then have "\<forall>d \<in> set (b32_digits (from_bytes (p @ replicate (5 - length p) 0))). d < 32"
      by (intro b32_digits_bound from_bytes_bound5)
    then have "\<forall>d \<in> set (take k (b32_digits (from_bytes (p @ replicate (5 - length p) 0)))). d < 32"
      by (meson in_set_takeD)
    with k show ?thesis by blast
  next
    case 3
    define g where "g = take 5 p"
    define rest where "rest = drop 5 p"
    have p: "p = g @ rest" by (simp add: g_def rest_def)
    have g5: "length g = 5" using 3 by (simp add: g_def)
    have "length rest < length p" using 3 by (simp add: rest_def)
    then obtain ds where ds: "encode_data rest = low_chars ds" "\<forall>d \<in> set ds. d < 32"
      using less.hyps by blast
    have b: "\<forall>d \<in> set (b32_digits (from_bytes g)). d < 32"
      using g5 by (intro b32_digits_bound from_bytes_bound5)
    have "encode_data p = low_chars (b32_digits (from_bytes g) @ ds)"
      by (simp add: p encode_data_append [OF g5] ds(1) low_chars_def)
    moreover have "\<forall>d \<in> set (b32_digits (from_bytes g) @ ds). d < 32"
      using b ds(2) by auto
    ultimately show ?thesis by blast
  qed
qed

lemma low_alphabet: "\<forall>c \<in> set b32alphabet. py_lower_char c \<in> set label_alphabet"
  by (simp add: b32alphabet_def label_alphabet_def str_of_def py_lower_char_def)

lemma encode_data_alphabet: "set (encode_data p) \<subseteq> set label_alphabet"
proof -
  obtain ds where ds: "encode_data p = low_chars ds" "\<forall>d \<in> set ds. d < 32"
    using encode_data_digits by blast
  have "py_lower_char (b32chr d) \<in> set label_alphabet" if "d < 32" for d
    using that low_alphabet by (simp add: b32chr_def b32alphabet_length)
  with ds show ?thesis by (auto simp: low_chars_def)
qed

lemma py_upper_idem: "py_upper (py_upper s) = py_upper s"
  by (auto simp: py_upper_def py_upper_char_def)

lemma py_upper_lower: "py_upper (py_lower s) = py_upper s"
  by (auto simp: py_upper_def py_lower_def py_upper_char_def py_lower_char_def)

lemma decode_data_case:
  "py_upper e' = py_upper e \<Longrightarrow> decode_data e' = decode_data e"
proof -
  assume u: "py_upper e' = py_upper e"
  then have "length e' = length e"
    unfolding py_upper_def by (rule map_eq_imp_length_eq)
  with u show ?thesis by (simp add: decode_data_def)
qed

text \<open>
  C1. Label-encoder round trip: for every byte string \<open>p\<close>, \<open>decode_data\<close> of
  \<open>encode_data p\<close> returns \<open>p\<close>, also after the encoded name has been upper-cased or
  lower-cased in transit; the encoded name uses only lower-case letters and the digits
  2 to 7, which lie inside the letter, digit and hyphen alphabet of a label.
\<close>

theorem label_roundtrip:
  "decode_data (encode_data p) = Inr p
   \<and> decode_data (py_upper (encode_data p)) = Inr p
   \<and> decode_data (py_lower (encode_data p)) = Inr p
   \<and> set (encode_data p) \<subseteq> set (str_of ''abcdefghijklmnopqrstuvwxyz234567'')"
  using decode_encode [of p] encode_data_alphabet [of p]
    decode_data_case [OF py_upper_idem, of "encode_data p"]
    decode_data_case [OF py_upper_lower, of "encode_data p"]
  by (simp add: label_alphabet_def)

section \<open>A name with a dot in it never decodes\<close>

lemma b32_acc_bad:
  "c \<in> set q \<Longrightarrow> b32rev c = None \<Longrightarrow> \<exists>e. b32_acc a q = Inl e"
  by (induction q arbitrary: a) (auto split: option.splits)

lemma b32decode_loop_bad:
  "c \<in> set s \<Longrightarrow> b32rev c = None \<Longrightarrow> \<exists>e. b32decode_loop s d a = Inl e"
proof (induction "length s" arbitrary: s d a rule: less_induct)
  case less
  from less.prems(1) have ne: "s \<noteq> []" by auto
  show ?case
  proof (cases "b32_acc 0 (take 8 s)")
    case (Inl e)
    with ne show ?thesis by (subst b32decode_loop.simps) simp
  next
    case (Inr acc')
    have "c \<notin> set (take 8 s)"
      using b32_acc_bad [OF _ less.prems(2), of "take 8 s" 0] Inr by auto
    moreover have "set s = set (take 8 s) \<union> set (drop 8 s)"
      by (metis append_take_drop_id set_append)
    ultimately have "c \<in> set (drop 8 s)"
      using less.prems(1) by auto
    moreover have "length (drop 8 s) < length s" using ne by simp
    ultimately have "\<exists>e. b32decode_loop (drop 8 s) (d @ to_bytes5 acc') acc' = Inl e"
      using less.hyps less.prems(2) by blast
    with ne Inr show ?thesis by (subst b32decode_loop.simps) simp
  qed
qed

lemma py_rstrip_keeps: "x \<in> set s \<Longrightarrow> x \<noteq> c \<Longrightarrow> x \<in> set (py_rstrip c s)"
proof -
  assume x: "x \<in> set s" "x \<noteq> c"
  have "x \<in> set (dropWhile (\<lambda>y. y = c) (rev s))"
    using x by (induction s rule: rev_induct) auto
  then show ?thesis by (simp add: py_rstrip_def)
qed

lemma b32rev_DOT: "b32rev DOT = None"
  by (simp add: b32rev_def b32alphabet_def str_of_def DOT_def upt_rec)

lemma b32decode_bad:
  assumes "DOT \<in> set s0" shows "\<exists>e. b32decode s0 = Inl e"
proof -
  have "DOT \<in> set (py_rstrip EQUALS s0)"
    using assms by (rule py_rstrip_keeps) (simp add: DOT_def EQUALS_def)
  then obtain e where "b32decode_loop (py_rstrip EQUALS s0) [] 0 = Inl e"
    using b32decode_loop_bad [OF _ b32rev_DOT] by blast
  then show ?thesis by (simp add: b32decode_unfold)
qed

lemma decode_data_dot:
  assumes "DOT \<in> set s" shows "\<exists>e. decode_data s = Inl e"
proof -
  have "py_upper_char DOT = DOT" by (simp add: py_upper_char_def DOT_def)
  then have "DOT \<in> set (py_upper s)"
    using assms by (force simp: py_upper_def)
  then have "DOT \<in> set (py_replace HYPHEN SLASH (py_upper s @ replicate ((8 - length s mod 8) mod 8) EQUALS))"
    by (force simp: py_replace_def DOT_def HYPHEN_def)
  then show ?thesis
    unfolding decode_data_def Let_def by (rule b32decode_bad)
qed

lemma py_join_dot: "2 \<le> length parts \<Longrightarrow> DOT \<in> set (py_join DOT parts)"
  by (induction DOT parts rule: py_join.induct) auto

lemma checkin_always_error:
  "handle_checkin_query ev parts transaction_id st = (Inr (Some build_error_response), st)"
proof (cases "length parts < 2")
  case True
  then show ?thesis by (simp add: handle_checkin_query_def)
next
  case False
  then have "DOT \<in> set (py_join DOT parts)" by (intro py_join_dot) simp
  then obtain e where "decode_data (py_join DOT parts) = Inl e"
    using decode_data_dot by blast
  then show ?thesis by (simp add: handle_checkin_query_def)
qed

section \<open>Text encoding and the number of chunks\<close>

lemma nat_digits_ascii: "\<forall>c \<in> set (nat_digits n). c < 128"
proof (induction n rule: nat_digits.induct)
  case (1 n)
  then show ?case by (subst nat_digits.simps) auto
qed

lemma py_str_int_ascii: "\<forall>c \<in> set (py_str_int i). c < 128"
  using nat_digits_ascii by (auto simp: py_str_int_def HYPHEN_def)

lemma utf8_encode_ascii: "\<forall>c \<in> set s. c < 128 \<Longrightarrow> utf8_encode s = Inr (map of_nat s)"
  by (induction s) (simp_all add: utf8_char_def ebind_def)




lemma ceil_step:
  fixes x n :: nat assumes "0 < n" "0 < x"
  shows "(x + n - 1) div n = Suc ((x - n + n - 1) div n)"
proof (cases "x \<le> n")
  case True
  have "(x + n - 1) div n = 1"
    using assms True by (intro div_nat_eqI) auto
  moreover have "(x - n + n - 1) div n = 0"
    using True assms by simp
  ultimately show ?thesis by simp
next
  case False
  then have a: "x + n - 1 = (x - 1) + n" and b: "x - n + n - 1 = x - 1" by auto
  have "((x - 1) + n) div n = Suc ((x - 1) div n)"
    using assms(1) le_div_geq [of n "x - 1 + n"] by simp
  then show ?thesis by (simp only: a b)
qed

lemma split_from_length:
  "0 < cs \<Longrightarrow> length (split_from cs mid tot data i) = (length data - i + nat cs - 1) div nat cs"
proof (induction cs mid tot data i rule: split_from.induct)
  case (1 cs mid tot data i)
  show ?case
  proof (cases "i < length data")
    case False
    with 1(2) show ?thesis by (subst split_from.simps) simp
  next
    case True
    have ih: "length (split_from cs mid tot data (i + nat cs))
        = (length data - (i + nat cs) + nat cs - 1) div nat cs"
      using 1(1) True 1(2) by simp
    have "length (split_from cs mid tot data i) = Suc (length (split_from cs mid tot data (i + nat cs)))"
      using True 1(2) by (subst split_from.simps) simp
    also have "\<dots> = Suc ((length data - i - nat cs + nat cs - 1) div nat cs)"
      by (simp only: ih diff_diff_left)
    also have "\<dots> = (length data - i + nat cs - 1) div nat cs"
      using ceil_step [of "nat cs" "length data - i"] True 1(2) by simp
    finally show ?thesis .
  qed
qed

lemma split_data_length:
  assumes "0 < chunk_size cfg"
  shows "\<exists>chs. split_data cfg data mid = Inr chs
     \<and> int (length chs) = (int (length data) + chunk_size cfg - 1) div chunk_size cfg"
proof -
  define n where "n = nat (chunk_size cfg)"
  have n: "0 < n" and cs: "chunk_size cfg = int n" using assms by (simp_all add: n_def)
  define chs where "chs = split_from (chunk_size cfg) mid ((int (length data) + chunk_size cfg - 1) div chunk_size cfg) data 0"
  have "length chs = (length data + n - 1) div n"
    unfolding chs_def n_def using split_from_length [OF assms, of mid _ data 0] by simp
  then have "int (length chs) = int ((length data + n - 1) div n)" by simp
  also have "\<dots> = (int (length data) + int n - 1) div int n"
    using n by (simp add: zdiv_int of_nat_diff)
  finally have "int (length chs) = (int (length data) + chunk_size cfg - 1) div chunk_size cfg"
    by (simp only: cs)
  moreover have "split_data cfg data mid = Inr chs"
    using assms by (simp add: split_data_def Let_def chs_def)
  ultimately show ?thesis by blast
qed

section \<open>The task handler\<close>



lemma replicate_small:
  "replicate 1 x = [x]" "replicate 2 x = [x, x]" "replicate 3 x = [x, x, x]"
  "replicate 4 x = [x, x, x, x]" "replicate 5 x = [x, x, x, x, x]"
  "replicate 6 x = [x, x, x, x, x, x]" "replicate 7 x = [x, x, x, x, x, x, x]"
  by (simp_all add: eval_nat_numeral)

lemma decode_mfrgg: "decode_data (str_of ''mfrgg'') = Inr [97, 98, 99]"
  by (simp add: decode_data_def str_of_def py_upper_def py_upper_char_def py_replace_def
      HYPHEN_def SLASH_def EQUALS_def b32decode_def py_rstrip_def b32decode_loop.simps
      b32rev_def b32alphabet_def upt_rec to_bytes5_def Let_def replicate_small)

lemma utf8_decode_abc: "utf8_decode [97, 98, 99] = Inr (str_of ''abc'')"
  by (simp add: utf8_decode_def str_of_def)

lemma resolve_demo:
  "resolve_agent_id (demo_state n) 7 [str_of ''mfrgg''] = Inr (str_of ''abc'')"
  by (simp add: resolve_agent_id_def demo_state_def initial_state_def truthy_def decode_mfrgg
      ebind_def utf8_decode_abc)

lemma pull_demo:
  "pull_task demo_env (str_of ''abc'') now (database (demo_state n))
     = (Inr (Some (str_of ''0a1b2c3d-demo'', replicate n 65)), ([], []))"
  by (simp add: demo_env_def demo_task_def demo_state_def initial_state_def)


section \<open>The result handler\<close>

lemma chunk_ack_encodes:
  "utf8_encode (str_of ''CHUNK:'' @ py_str_int n) = Inr (map of_nat (str_of ''CHUNK:'' @ py_str_int n))"
  using py_str_int_ascii [of n] by (intro utf8_encode_ascii) (auto simp: str_of_def)

lemma update_twice: "AList.update k v (AList.update k v al) = AList.update k v al"
  by (induction al) auto

lemma store_chunk_again:
  "store_chunk (st\<lparr>incoming_messages := (incoming_messages st)
        (mid \<mapsto> store_chunk st mid chunk_num n_total chunk_data now)\<rparr>)
      mid chunk_num n_total chunk_data now'
   = store_chunk st mid chunk_num n_total chunk_data now"
  by (simp add: store_chunk_def Let_def update_twice split: option.splits)

subsection \<open>The submission always raises\<close>

lemma json_pop_removes:
  assumes "json_pop d key = Inr (v, r)"
  shows "\<exists>items. r = JDict items \<and> map_of items key = None"
  using assms
  by (auto simp: json_pop_def delete_conv' split: json.splits option.splits)

lemma TaskResult_without_task_id:
  assumes "map_of items (str_of ''task_id'') = None"
  shows "TaskResult f (JDict items) = Inl ValidationError"
  using assms by (simp add: TaskResult_def)

lemma process_result_raises: "\<exists>e. process_result ev full_data db = (Inl e, db)"
proof (cases "json_loads ev full_data")
  case (Inl e)
  then show ?thesis by (simp add: process_result_def)
next
  case loaded: (Inr d)
  show ?thesis
  proof (cases "json_pop d (str_of ''task_id'')")
    case (Inl e)
    then show ?thesis by (simp add: process_result_def loaded)
  next
    case (Inr p)
    obtain v r where p: "p = (v, r)" by (cases p) auto
    obtain items where "r = JDict items" "map_of items (str_of ''task_id'') = None"
      using json_pop_removes Inr p by blast
    then show ?thesis
      by (simp add: process_result_def loaded Inr p TaskResult_without_task_id)
  qed
qed

lemma handle_result_query_stored:
  assumes len: "3 \<le> length parts"
    and fields: "result_fields parts = Inr (mid, chunk_num, n_total, chunk_data)"
  shows "handle_result_query ev parts transaction_id now st
     = (Inr (Some (if int (length (chunks (store_chunk st mid chunk_num n_total chunk_data now)))
                      = n_total
                   then build_error_response
                   else build_txt_response (map of_nat (str_of ''CHUNK:'' @ py_str_int chunk_num)))),
        st\<lparr>incoming_messages := (incoming_messages st)
              (mid \<mapsto> store_chunk st mid chunk_num n_total chunk_data now)\<rparr>)"
proof -
  define buf where "buf = store_chunk st mid chunk_num n_total chunk_data now"
  define st1 where "st1 = st\<lparr>incoming_messages := (incoming_messages st)(mid \<mapsto> buf)\<rparr>"
  have l: "\<not> length parts < 3" using len by simp
  have db: "database st1 = database st" by (simp add: st1_def)
  have same: "st1\<lparr>database := database st\<rparr> = st1" by (simp add: st1_def)
  have sub: "(case process_result ev full_data (database st1) of
        (Inl e, db') \<Rightarrow> (Inr (Some build_error_response), st1\<lparr>database := db'\<rparr>)
      | (Inr ok, db') \<Rightarrow>
          (Inr (Some (build_txt_response (bytes_of ''ACK''))),
           st1\<lparr>incoming_messages := (incoming_messages st1)(mid := None), database := db'\<rparr>))
      = (Inr (Some build_error_response), st1)" for full_data
  proof -
    obtain e where "process_result ev full_data (database st) = (Inl e, database st)"
      using process_result_raises [of ev full_data "database st"] by (elim exE)
    then show ?thesis by (simp add: db same)
  qed
  have "handle_result_query ev parts transaction_id now st
      = (if int (length (chunks buf)) = n_total then (Inr (Some build_error_response), st1)
         else (Inr (Some (build_txt_response (map of_nat (str_of ''CHUNK:'' @ py_str_int chunk_num)))),
               st1))"
    unfolding handle_result_query_def
    by (simp only: l fields if_False sum.case prod.case Let_def buf_def [symmetric]
        st1_def [symmetric] sub chunk_ack_encodes)
       (simp split: sum.splits)
  then show ?thesis by (simp add: buf_def st1_def)
qed

text \<open>
  C3. Result-chunk idempotence: the identical result chunk query sent twice gets the same
  acknowledgement both times and leaves the same state, and the store is as it was before
  the first one, so nothing is submitted twice. For a well-formed query the acknowledgement
  is \<^verbatim>\<open>CHUNK:<n>\<close> while the message is incomplete and \<^verbatim>\<open>ERROR\<close> once it is complete
  (the submission of a complete message always raises); the chunk is stored under its
  index, and storing it again gives the same buffer with the same number of chunks.
\<close>

theorem result_chunk_redelivery:
  "handle_result_query ev parts transaction_id' now'
       (snd (handle_result_query ev parts transaction_id now st))
     = handle_result_query ev parts transaction_id now st
   \<and> database (snd (handle_result_query ev parts transaction_id now st)) = database st
   \<and> (3 \<le> length parts \<and> result_fields parts = Inr (mid, chunk_num, n_total, chunk_data) \<longrightarrow>
        handle_result_query ev parts transaction_id now st
          = (Inr (Some (if int (length (chunks (store_chunk st mid chunk_num n_total chunk_data now)))
                          = n_total
                        then build_error_response
                        else build_txt_response
                               (map of_nat (str_of ''CHUNK:'' @ py_str_int chunk_num)))),
             st\<lparr>incoming_messages := (incoming_messages st)
                   (mid \<mapsto> store_chunk st mid chunk_num n_total chunk_data now)\<rparr>)
      \<and> store_chunk (st\<lparr>incoming_messages := (incoming_messages st)
               (mid \<mapsto> store_chunk st mid chunk_num n_total chunk_data now)\<rparr>)
             mid chunk_num n_total chunk_data now'
          = store_chunk st mid chunk_num n_total chunk_data now)"
proof (cases "3 \<le> length parts")
  case False
  then show ?thesis by (simp add: handle_result_query_def)
next
  case len: True
  show ?thesis
  proof (cases "result_fields parts")
    case (Inl e)
    then show ?thesis using len by (simp add: handle_result_query_def)
  next
    case (Inr f)
    obtain m c n d where f: "f = (m, c, n, d)" by (cases f) auto
    have fields: "result_fields parts = Inr (m, c, n, d)" using Inr f by simp
    define st1 where "st1 = st\<lparr>incoming_messages := (incoming_messages st)
        (m \<mapsto> store_chunk st m c n d now)\<rparr>"
    have again: "store_chunk st1 m c n d now' = store_chunk st m c n d now"
      unfolding st1_def by (rule store_chunk_again)
    have upd: "st1\<lparr>incoming_messages := (incoming_messages st1)
        (m \<mapsto> store_chunk st m c n d now)\<rparr> = st1"
      by (simp add: st1_def)
    have first: "handle_result_query ev parts transaction_id now st
        = (Inr (Some (if int (length (chunks (store_chunk st m c n d now))) = n
                      then build_error_response
                      else build_txt_response (map of_nat (str_of ''CHUNK:'' @ py_str_int c)))),
           st1)"
      unfolding st1_def by (rule handle_result_query_stored [OF len fields])
    have second: "handle_result_query ev parts transaction_id' now' st1
        = (Inr (Some (if int (length (chunks (store_chunk st m c n d now))) = n
                      then build_error_response
                      else build_txt_response (map of_nat (str_of ''CHUNK:'' @ py_str_int c)))),
           st1)"
      using handle_result_query_stored [OF len fields, of ev transaction_id' now' st1]
      by (simp only: again upd)
    have db: "database st1 = database st" by (simp add: st1_def)
    have A: "handle_result_query ev parts transaction_id' now'
          (snd (handle_result_query ev parts transaction_id now st))
        = handle_result_query ev parts transaction_id now st"
      by (simp only: first second snd_conv)
    have B: "database (snd (handle_result_query ev parts transaction_id now st)) = database st"
      by (simp only: first snd_conv db)
    have C: "3 \<le> length parts \<and> result_fields parts = Inr (mid, chunk_num, n_total, chunk_data) \<longrightarrow>
        handle_result_query ev parts transaction_id now st
          = (Inr (Some (if int (length (chunks (store_chunk st mid chunk_num n_total chunk_data now)))
                          = n_total
                        then build_error_response
                        else build_txt_response
                               (map of_nat (str_of ''CHUNK:'' @ py_str_int chunk_num)))),
             st\<lparr>incoming_messages := (incoming_messages st)
                   (mid \<mapsto> store_chunk st mid chunk_num n_total chunk_data now)\<rparr>)
      \<and> store_chunk (st\<lparr>incoming_messages := (incoming_messages st)
               (mid \<mapsto> store_chunk st mid chunk_num n_total chunk_data now)\<rparr>)
             mid chunk_num n_total chunk_data now'
          = store_chunk st mid chunk_num n_total chunk_data now"
      using handle_result_query_stored [of parts mid chunk_num n_total chunk_data ev transaction_id now st]
        store_chunk_again [of st mid chunk_num n_total chunk_data now now']
      by blast
    from A B C show ?thesis by blast
  qed
qed

text \<open>
  C10. Buffer removed only on successful submission. When a result chunk completes its
  message, deserialization and submission raise: \<open>process_result\<close> never returns normally
  and leaves the store as it is (\<^verbatim>\<open>task_id\<close> is popped from the document before
  \<^verbatim>\<open>TaskResult\<close> is built from it, which requires \<^verbatim>\<open>task_id\<close>). The answer is \<^verbatim>\<open>ERROR\<close>
  and the buffer stays with all its chunks; sending the chunk again finds the buffer
  complete again and is answered \<^verbatim>\<open>ERROR\<close> again. The handler removes no buffer, so none
  is removed without a successful submission.
\<close>

theorem buffer_removed_only_after_submission:
  assumes len: "3 \<le> length parts"
    and fields: "result_fields parts = Inr (mid, chunk_num, n_total, chunk_data)"
    and buf: "buf = store_chunk st mid chunk_num n_total chunk_data now"
    and complete: "int (length (chunks buf)) = n_total"
    and st1: "st1 = st\<lparr>incoming_messages := (incoming_messages st)(mid \<mapsto> buf)\<rparr>"
  shows "handle_result_query ev parts transaction_id now st = (Inr (Some build_error_response), st1)
       \<and> incoming_messages st1 mid = Some buf
       \<and> store_chunk st1 mid chunk_num n_total chunk_data now' = buf
       \<and> handle_result_query ev parts transaction_id' now' st1
           = (Inr (Some build_error_response), st1)
       \<and> (\<exists>e. process_result ev full_data db = (Inl e, db))
       \<and> dom (incoming_messages s)
           \<subseteq> dom (incoming_messages (snd (handle_result_query ev ps transaction_id now s)))"
proof -
  have again: "store_chunk st1 mid chunk_num n_total chunk_data now' = buf"
    unfolding st1 buf by (rule store_chunk_again)
  have upd: "st1\<lparr>incoming_messages := (incoming_messages st1)(mid \<mapsto> buf)\<rparr> = st1"
    by (simp add: st1)
  have first: "handle_result_query ev parts transaction_id now st
      = (Inr (Some build_error_response), st1)"
    using handle_result_query_stored [OF len fields, of ev transaction_id now st] complete
    by (simp add: buf st1)
  have second: "handle_result_query ev parts transaction_id' now' st1
      = (Inr (Some build_error_response), st1)"
    using handle_result_query_stored [OF len fields, of ev transaction_id' now' st1] complete
    by (simp add: again upd)
  have keeps: "dom (incoming_messages s)
      \<subseteq> dom (incoming_messages (snd (handle_result_query ev ps transaction_id now s)))"
  proof (cases "3 \<le> length ps")
    case False
    then show ?thesis by (simp add: handle_result_query_def)
  next
    case l: True
    show ?thesis
    proof (cases "result_fields ps")
      case (Inl e)
      then show ?thesis using l by (simp add: handle_result_query_def)
    next
      case (Inr f)
      obtain m c n d where "result_fields ps = Inr (m, c, n, d)"
        using Inr by (cases f) auto
      from handle_result_query_stored [OF l this, of ev transaction_id now s]
      show ?thesis by auto
    qed
  qed
  from first second again keeps process_result_raises [of ev full_data db]
  show ?thesis by (simp add: st1)
qed

lemma py_int_small:
  "py_int (str_of ''0'') = Inr 0" "py_int (str_of ''1'') = Inr 1" "py_int (str_of ''2'') = Inr 2"
  by (simp_all add: py_int_def str_of_def py_strip_def py_isspace_def py_isdigit_def HYPHEN_def)

lemma result_fields_demo:
  "result_fields (result_parts ''1'') = Inr (str_of ''m1'', 0, 1, [97, 98, 99])"
  "result_fields (result_parts ''2'') = Inr (str_of ''m1'', 0, 2, [97, 98, 99])"
  by (simp_all add: result_fields_def result_parts_def py_int_small ebind_def decode_mfrgg)

lemma result_fields_document:
  "result_fields document_parts = Inr (str_of ''m1'', 0, 1, demo_payload)"
  by (simp add: result_fields_def document_parts_def py_int_small ebind_def decode_encode)

lemma store_chunk_demo:
  "store_chunk (demo_state 0) (str_of ''m1'') 0 n d now
     = \<lparr>chunks = [(0, d)], total_chunks = n, timestamp = now\<rparr>"
  by (simp add: store_chunk_def demo_state_def initial_state_def)

lemma process_result_document:
  "process_result demo_env demo_payload db = (Inl ValidationError, db)"
  by (simp add: process_result_def demo_env_def demo_document_def json_pop_def TaskResult_def)

theorem result_chunk_redelivery_witness:
  "handle_result_query demo_env (result_parts ''2'') 7 0 (demo_state 0)
     = (Inr (Some (build_txt_response (map of_nat (str_of ''CHUNK:'' @ py_str_int 0)))),
        (demo_state 0)\<lparr>incoming_messages := (incoming_messages (demo_state 0))
          (str_of ''m1'' \<mapsto> \<lparr>chunks = [(0, [97, 98, 99])], total_chunks = 2, timestamp = 0\<rparr>)\<rparr>)
   \<and> handle_result_query demo_env (result_parts ''2'') 7 5
        (snd (handle_result_query demo_env (result_parts ''2'') 7 0 (demo_state 0)))
     = handle_result_query demo_env (result_parts ''2'') 7 0 (demo_state 0)
   \<and> database (snd (handle_result_query demo_env (result_parts ''2'') 7 0 (demo_state 0)))
     = database (demo_state 0)
   \<and> handle_result_query demo_env (result_parts ''1'') 7 0 (demo_state 0)
     = (Inr (Some build_error_response),
        (demo_state 0)\<lparr>incoming_messages := (incoming_messages (demo_state 0))
          (str_of ''m1'' \<mapsto> \<lparr>chunks = [(0, [97, 98, 99])], total_chunks = 1, timestamp = 0\<rparr>)\<rparr>)
   \<and> handle_result_query demo_env (result_parts ''1'') 7 5
        (snd (handle_result_query demo_env (result_parts ''1'') 7 0 (demo_state 0)))
     = handle_result_query demo_env (result_parts ''1'') 7 0 (demo_state 0)
   \<and> database (snd (handle_result_query demo_env (result_parts ''1'') 7 0 (demo_state 0)))
     = database (demo_state 0)"
proof -
  have len: "3 \<le> length (result_parts n)" for n by (simp add: result_parts_def)
  note two = result_chunk_redelivery [where ev = demo_env and parts = "result_parts ''2''"
      and transaction_id = 7 and transaction_id' = 7 and now = 0 and now' = 5
      and st = "demo_state 0" and mid = "str_of ''m1''" and chunk_num = 0 and n_total = 2
      and chunk_data = "[97, 98, 99]"]
  note one = result_chunk_redelivery [where ev = demo_env and parts = "result_parts ''1''"
      and transaction_id = 7 and transaction_id' = 7 and now = 0 and now' = 5
      and st = "demo_state 0" and mid = "str_of ''m1''" and chunk_num = 0 and n_total = 1
      and chunk_data = "[97, 98, 99]"]
  have a: "handle_result_query demo_env (result_parts ''2'') 7 0 (demo_state 0)
     = (Inr (Some (build_txt_response (map of_nat (str_of ''CHUNK:'' @ py_str_int 0)))),
        (demo_state 0)\<lparr>incoming_messages := (incoming_messages (demo_state 0))
          (str_of ''m1'' \<mapsto> \<lparr>chunks = [(0, [97, 98, 99])], total_chunks = 2, timestamp = 0\<rparr>)\<rparr>)"
    using two [THEN conjunct2, THEN conjunct2, rule_format, OF conjI, OF len result_fields_demo(2),
        THEN conjunct1]
    by (simp add: store_chunk_demo)
  have b: "handle_result_query demo_env (result_parts ''1'') 7 0 (demo_state 0)
     = (Inr (Some build_error_response),
        (demo_state 0)\<lparr>incoming_messages := (incoming_messages (demo_state 0))
          (str_of ''m1'' \<mapsto> \<lparr>chunks = [(0, [97, 98, 99])], total_chunks = 1, timestamp = 0\<rparr>)\<rparr>)"
    using one [THEN conjunct2, THEN conjunct2, rule_format, OF conjI, OF len result_fields_demo(1),
        THEN conjunct1]
    by (simp add: store_chunk_demo)
  from a b two [THEN conjunct1] two [THEN conjunct2, THEN conjunct1]
    one [THEN conjunct1] one [THEN conjunct2, THEN conjunct1]
  show ?thesis by (intro conjI)
qed

theorem buffer_removed_only_after_submission_witness:
  "handle_result_query demo_env document_parts 7 0 (demo_state 0)
     = (Inr (Some build_error_response), demo_complete)
   \<and> incoming_messages demo_complete (str_of ''m1'')
     = Some \<lparr>chunks = [(0, demo_payload)], total_chunks = 1, timestamp = 0\<rparr>
   \<and> handle_result_query demo_env document_parts 7 5 demo_complete
     = (Inr (Some build_error_response), demo_complete)
   \<and> process_result demo_env demo_payload (database (demo_state 0))
     = (Inl ValidationError, database (demo_state 0))"
proof -
  have len: "3 \<le> length document_parts" by (simp add: document_parts_def)
  have buf: "\<lparr>chunks = [(0, demo_payload)], total_chunks = 1, timestamp = 0\<rparr>
      = store_chunk (demo_state 0) (str_of ''m1'') 0 1 demo_payload 0"
    by (simp add: store_chunk_demo)
  have complete: "int (length (chunks \<lparr>chunks = [(0, demo_payload)], total_chunks = 1, timestamp = 0\<rparr>)) = 1"
    by simp
  note t = buffer_removed_only_after_submission [OF len result_fields_document buf complete
      demo_complete_def, where ev = demo_env and transaction_id = 7 and transaction_id' = 7
      and now' = 5]
  from t [THEN conjunct1] t [THEN conjunct2, THEN conjunct1]
    t [THEN conjunct2, THEN conjunct2, THEN conjunct2, THEN conjunct1]
    process_result_document [of "database (demo_state 0)"]
  show ?thesis by (intro conjI)
qed

section \<open>Which handlers touch the reassembly buffers\<close>






lemma demo_state_incoming: "incoming_messages (demo_state n) = Map.empty"
  by (simp add: demo_state_def initial_state_def)

lemma demo_partial_reached:
  "snd (handle_result_query demo_env (result_parts ''2'') 7 0 (demo_state 0)) = demo_partial"
  by (simp add: handle_result_query_def result_parts_def [of "''2''", THEN arg_cong, of length]
      result_fields_demo store_chunk_demo Let_def chunk_ack_encodes demo_partial_def
      demo_state_incoming)




section \<open>Concrete datagrams\<close>

lemma parse_taskx:
  "parse_dns_query taskx_query = Inr (0x1234, [(str_of ''taskx.example.com'', 16, 1)])"
  by (simp add: parse_dns_query_def taskx_query_def bytes_of_def slice_def unpack_H_def ebind_def
      parse_name.simps ascii_decode_def Let_def str_of_def DOT_def)

lemma dispatch_taskx:
  "handle_agent_query ev default_config (str_of ''taskx.example.com'') qtype transaction_id now st
   = handle_task_query ev default_config [] transaction_id now st"
  by (simp add: handle_agent_query_def default_config_def str_of_def DOT_def py_endswith_def
      Let_def)

lemma build_error_response_bytes: "build_error_response = [5, 69, 82, 82, 79, 82]"
  by (simp add: build_error_response_def bytes_of_def build_txt_response.simps)

text \<open>
  C5, at the failing input. The name \<^verbatim>\<open>taskx.example.com\<close> lies under the base domain and
  its first label is none of \<^verbatim>\<open>checkin\<close>, \<^verbatim>\<open>task\<close>, \<^verbatim>\<open>result\<close>, \<^verbatim>\<open>beacon\<close>; the claim
  promises NXDOMAIN with no answer. \<open>handle_agent_query\<close> cuts one character too many off
  the name, reads the label as \<^verbatim>\<open>task\<close>, and the response is a success (flags 0x8180)
  with one TXT answer \<^verbatim>\<open>ERROR\<close>.
\<close>

theorem unrecognized_label_answered:
  "process_query ev default_config taskx_query now st = (Inr taskx_response, st)"
proof -
  have q: "handle_agent_query ev default_config (str_of ''taskx.example.com'') 16 4660 now st
      = (Inr (Some [5, 69, 82, 82, 79, 82]), st)"
    by (simp add: dispatch_taskx handle_task_query_def build_error_response_bytes)
  have a: "process_questions ev default_config now 4660 [(str_of ''taskx.example.com'', 16, 1)] st
      = (Inr [(str_of ''taskx.example.com'', 16, 1, 300, [5, 69, 82, 82, 79, 82])], st)"
    by (simp add: answer_question_def DNS_IN_def DNS_A_def DNS_TXT_def q)
       (simp add: default_config_def)
  have r: "build_dns_response 4660 [(str_of ''taskx.example.com'', 16, 1)]
        [(str_of ''taskx.example.com'', 16, 1, 300, [5, 69, 82, 82, 79, 82])]
      = Inr taskx_response"
    by (simp add: build_dns_response_def pack_uint_def ebind_def encode_domain_def str_of_def
        DOT_def ascii_encode_def taskx_response_def bytes_of_def upt_rec)
  show ?thesis
    by (simp add: process_query_def process_query_body_def parse_taskx a r
        del: process_questions.simps)
qed

text \<open>
  C2, at the failing input. For an empty datagram (and for a datagram of one byte) the
  parser raises, and so does \<open>build_servfail_response\<close> in the handler of that exception,
  which unpacks \<^verbatim>\<open>data[:2]\<close>: \<open>process_query\<close> raises instead of returning SERVFAIL, and
  no datagram is sent back.
\<close>

theorem short_datagram_raises:
  "process_query ev cfg [] now st = (Inl StructError, st)
   \<and> process_query ev cfg [b] now st = (Inl StructError, st)
   \<and> handle_datagram ev cfg [] now st = (None, st)"
  by (simp add: handle_datagram_def process_query_def process_query_body_def parse_dns_query_def
      build_servfail_response_def unpack_H_def slice_def ebind_def)

text \<open>
  C7, at every input. \<open>handle_checkin_query\<close> answers \<^verbatim>\<open>ERROR\<close> and stores nothing,
  whatever the query and whatever the registration would return: with fewer than two parts
  it gives up, and with two or more it base-32 decodes the parts joined by dots, which
  never decodes. No handler writes \<open>agent_sessions\<close>, so no transaction id is ever bound.
\<close>

theorem checkin_stores_no_binding:
  "handle_checkin_query ev parts transaction_id st = (Inr (Some build_error_response), st)
   \<and> agent_sessions (snd (handle_agent_query ev cfg name qtype transaction_id now st))
       = agent_sessions st"
proof -
  have 1: "agent_sessions (snd (handle_task_query ev cfg ps transaction_id now st)) = agent_sessions st"
    for ps
    by (simp add: handle_task_query_def Let_def split: sum.splits prod.splits option.splits)
  have 2: "agent_sessions (snd (handle_result_query ev ps transaction_id now st)) = agent_sessions st"
    for ps
    by (simp add: handle_result_query_def Let_def split: sum.splits prod.splits)
  have 3: "agent_sessions (snd (handle_beacon_query ev ps transaction_id now st)) = agent_sessions st"
    for ps
    by (simp add: handle_beacon_query_def split: sum.splits prod.splits)
  show ?thesis
    by (simp add: checkin_always_error handle_agent_query_def Let_def handle_data_query_def 1 2 3)
qed

section \<open>Names read by the parser can be written back\<close>













section \<open>The dispatcher on one question\<close>









section \<open>The outgoing queue is written and never read\<close>

lemma task_query_queue:
  assumes "same_but_queue s t"
  shows "fst (handle_task_query ev cfg ps transaction_id now s)
           = fst (handle_task_query ev cfg ps transaction_id now t)
       \<and> same_but_queue (snd (handle_task_query ev cfg ps transaction_id now s))
           (snd (handle_task_query ev cfg ps transaction_id now t))"
proof -
  have r: "resolve_agent_id s transaction_id ps = resolve_agent_id t transaction_id ps"
    using assms by (simp add: resolve_agent_id_def same_but_queue_def)
  show ?thesis
    using assms
    by (simp add: handle_task_query_def r Let_def same_but_queue_def
        split: sum.splits prod.splits option.splits)
qed

lemma result_query_queue:
  assumes "same_but_queue s t"
  shows "fst (handle_result_query ev ps transaction_id now s)
           = fst (handle_result_query ev ps transaction_id now t)
       \<and> same_but_queue (snd (handle_result_query ev ps transaction_id now s))
           (snd (handle_result_query ev ps transaction_id now t))"
proof -
  have c: "store_chunk s m k n d now = store_chunk t m k n d now" for m k n d
    using assms by (simp add: store_chunk_def same_but_queue_def)
  show ?thesis
    using assms
    by (simp add: handle_result_query_def c Let_def same_but_queue_def
        split: sum.splits prod.splits)
qed

lemma beacon_query_queue:
  assumes "same_but_queue s t"
  shows "fst (handle_beacon_query ev ps transaction_id now s)
           = fst (handle_beacon_query ev ps transaction_id now t)
       \<and> same_but_queue (snd (handle_beacon_query ev ps transaction_id now s))
           (snd (handle_beacon_query ev ps transaction_id now t))"
  using assms
  by (simp add: handle_beacon_query_def same_but_queue_def split: sum.splits prod.splits)

lemma agent_query_queue:
  assumes "same_but_queue s t"
  shows "fst (handle_agent_query ev cfg name qtype transaction_id now s)
           = fst (handle_agent_query ev cfg name qtype transaction_id now t)
       \<and> same_but_queue (snd (handle_agent_query ev cfg name qtype transaction_id now s))
           (snd (handle_agent_query ev cfg name qtype transaction_id now t))"
  using assms task_query_queue [OF assms] result_query_queue [OF assms]
    beacon_query_queue [OF assms]
  by (simp add: handle_agent_query_def Let_def checkin_always_error handle_data_query_def)

lemma answer_question_queue:
  assumes "same_but_queue s t"
  shows "fst (answer_question ev cfg now transaction_id q s)
           = fst (answer_question ev cfg now transaction_id q t)
       \<and> same_but_queue (snd (answer_question ev cfg now transaction_id q s))
           (snd (answer_question ev cfg now transaction_id q t))"
proof -
  obtain name qtype qclass where q: "q = (name, qtype, qclass)" by (cases q) auto
  show ?thesis
  proof (cases "qclass = DNS_IN \<and> qtype \<noteq> DNS_A \<and> qtype = DNS_TXT")
    case True
    note a = agent_query_queue [OF assms, of ev cfg name DNS_TXT transaction_id now]
    obtain rs ss where s: "handle_agent_query ev cfg name DNS_TXT transaction_id now s = (rs, ss)"
      by (cases "handle_agent_query ev cfg name DNS_TXT transaction_id now s") auto
    obtain rt tt where t: "handle_agent_query ev cfg name DNS_TXT transaction_id now t = (rt, tt)"
      by (cases "handle_agent_query ev cfg name DNS_TXT transaction_id now t") auto
    from a s t have "rs = rt" "same_but_queue ss tt" by simp_all
    then show ?thesis
      using True by (simp add: answer_question_def q s t split: sum.splits)
  next
    case False
    then show ?thesis
      using assms by (auto simp: answer_question_def q split: sum.splits)
  qed
qed

lemma process_questions_queue:
  "same_but_queue s t \<Longrightarrow>
     fst (process_questions ev cfg now transaction_id qs s)
       = fst (process_questions ev cfg now transaction_id qs t)
     \<and> same_but_queue (snd (process_questions ev cfg now transaction_id qs s))
         (snd (process_questions ev cfg now transaction_id qs t))"
proof (induction qs arbitrary: s t)
  case Nil
  then show ?case by simp
next
  case (Cons q qs)
  note a = answer_question_queue [OF Cons.prems, of ev cfg now transaction_id q]
  obtain rs ss where s: "answer_question ev cfg now transaction_id q s = (rs, ss)"
    by (cases "answer_question ev cfg now transaction_id q s") auto
  obtain rt tt where t: "answer_question ev cfg now transaction_id q t = (rt, tt)"
    by (cases "answer_question ev cfg now transaction_id q t") auto
  from a s t have r: "rs = rt" and st: "same_but_queue ss tt" by simp_all
  note ih = Cons.IH [OF st]
  show ?case
  proof (cases rt)
    case (Inl e)
    then show ?thesis using r st by (simp add: s t)
  next
    case (Inr answers)
    obtain r2 s2 where s2: "process_questions ev cfg now transaction_id qs ss = (r2, s2)"
      by (cases "process_questions ev cfg now transaction_id qs ss") auto
    obtain r3 s3 where s3: "process_questions ev cfg now transaction_id qs tt = (r3, s3)"
      by (cases "process_questions ev cfg now transaction_id qs tt") auto
    from ih s2 s3 have "r2 = r3" "same_but_queue s2 s3" by simp_all
    then show ?thesis using r Inr by (simp add: s t s2 s3 split: sum.splits)
  qed
qed

lemma process_query_queue:
  assumes "same_but_queue s t"
  shows "fst (process_query ev cfg data now s) = fst (process_query ev cfg data now t)
       \<and> same_but_queue (snd (process_query ev cfg data now s))
           (snd (process_query ev cfg data now t))"
proof (cases "parse_dns_query data")
  case (Inl e)
  then show ?thesis
    using assms by (simp add: process_query_def process_query_body_def)
next
  case (Inr p)
  obtain transaction_id qs where p: "p = (transaction_id, qs)" by (cases p) auto
  note q = process_questions_queue [OF assms, of ev cfg now transaction_id qs]
  obtain r2 s2 where s2: "process_questions ev cfg now transaction_id qs s = (r2, s2)"
    by (cases "process_questions ev cfg now transaction_id qs s") auto
  obtain r3 s3 where s3: "process_questions ev cfg now transaction_id qs t = (r3, s3)"
    by (cases "process_questions ev cfg now transaction_id qs t") auto
  from q s2 s3 have "r2 = r3" "same_but_queue s2 s3" by simp_all
  then show ?thesis
    by (simp add: process_query_def process_query_body_def Inr p s2 s3
        split: sum.splits del: process_questions.simps)
qed

lemma task_query_keeps:
  "dom (outgoing_messages st)
     \<subseteq> dom (outgoing_messages (snd (handle_task_query ev cfg ps transaction_id now st)))"
  by (auto simp: handle_task_query_def Let_def split: sum.splits prod.splits option.splits)

lemma result_query_keeps:
  "outgoing_messages (snd (handle_result_query ev ps transaction_id now st)) = outgoing_messages st"
  by (simp add: handle_result_query_def Let_def split: sum.splits prod.splits)

lemma beacon_query_keeps:
  "outgoing_messages (snd (handle_beacon_query ev ps transaction_id now st)) = outgoing_messages st"
  by (simp add: handle_beacon_query_def split: sum.splits prod.splits)

lemma agent_query_keeps:
  "dom (outgoing_messages st)
     \<subseteq> dom (outgoing_messages (snd (handle_agent_query ev cfg name qtype transaction_id now st)))"
  using task_query_keeps [of st ev cfg _ transaction_id now]
  by (simp add: handle_agent_query_def Let_def checkin_always_error handle_data_query_def
      result_query_keeps beacon_query_keeps)

lemma answer_question_keeps:
  "dom (outgoing_messages st)
     \<subseteq> dom (outgoing_messages (snd (answer_question ev cfg now transaction_id q st)))"
proof -
  obtain name qtype qclass where q: "q = (name, qtype, qclass)" by (cases q) auto
  show ?thesis
  proof (cases "qclass = DNS_IN \<and> qtype \<noteq> DNS_A \<and> qtype = DNS_TXT")
    case True
    obtain r s where s: "handle_agent_query ev cfg name DNS_TXT transaction_id now st = (r, s)"
      by (cases "handle_agent_query ev cfg name DNS_TXT transaction_id now st") auto
    from agent_query_keeps [of st ev cfg name DNS_TXT transaction_id now] s
    have "dom (outgoing_messages st) \<subseteq> dom (outgoing_messages s)" by simp
    then show ?thesis
      using True by (simp add: answer_question_def q s split: sum.splits)
  next
    case False
    then show ?thesis
      by (auto simp: answer_question_def q split: sum.splits)
  qed
qed

lemma process_questions_keeps:
  "dom (outgoing_messages st)
     \<subseteq> dom (outgoing_messages (snd (process_questions ev cfg now transaction_id qs st)))"
proof (induction qs arbitrary: st)
  case Nil
  show ?case by simp
next
  case (Cons q qs)
  obtain r s where s: "answer_question ev cfg now transaction_id q st = (r, s)"
    by (cases "answer_question ev cfg now transaction_id q st") auto
  have 1: "dom (outgoing_messages st) \<subseteq> dom (outgoing_messages s)"
    using answer_question_keeps [of st ev cfg now transaction_id q] s by simp
  obtain r2 s2 where s2: "process_questions ev cfg now transaction_id qs s = (r2, s2)"
    by (cases "process_questions ev cfg now transaction_id qs s") auto
  have 2: "dom (outgoing_messages s) \<subseteq> dom (outgoing_messages s2)"
    using Cons.IH [of s] s2 by simp
  show ?case
    using 1 2 by (cases r; cases r2) (auto simp: s s2)
qed

lemma process_query_keeps:
  "dom (outgoing_messages st)
     \<subseteq> dom (outgoing_messages (snd (process_query ev cfg data now st)))"
proof (cases "parse_dns_query data")
  case (Inl e)
  then show ?thesis by (simp add: process_query_def process_query_body_def)
next
  case (Inr p)
  obtain transaction_id qs where p: "p = (transaction_id, qs)" by (cases p) auto
  obtain r s where s: "process_questions ev cfg now transaction_id qs st = (r, s)"
    by (cases "process_questions ev cfg now transaction_id qs st") auto
  have "dom (outgoing_messages st) \<subseteq> dom (outgoing_messages s)"
    using process_questions_keeps [of st ev cfg now transaction_id qs] s by simp
  then show ?thesis
    by (simp add: process_query_def process_query_body_def Inr p s
        split: sum.splits del: process_questions.simps)
qed

lemma parse_task_poll:
  "parse_dns_query task_poll_query = Inr (7, [(str_of ''task.mfrggx.example.com'', 16, 1)])"
  by (simp add: parse_dns_query_def task_poll_query_def bytes_of_def slice_def unpack_H_def
      ebind_def parse_name.simps ascii_decode_def Let_def str_of_def DOT_def)

lemma dispatch_task_poll:
  "handle_agent_query ev default_config (str_of ''task.mfrggx.example.com'') qtype
      transaction_id now st
   = handle_task_query ev default_config [str_of ''mfrgg''] transaction_id now st"
  by (simp add: handle_agent_query_def default_config_def str_of_def DOT_def py_endswith_def
      Let_def)

lemma multi_marker_bytes:
  "build_txt_response (bytes_of ''MULTI:t0a1b2c3d:12'')
     = [18, 77, 85, 76, 84, 73, 58, 116, 48, 97, 49, 98, 50, 99, 51, 100, 58, 49, 50]"
  by (simp add: bytes_of_def build_txt_response.simps)

lemma notask_bytes:
  "build_txt_response (bytes_of ''NOTASK'') = [6, 78, 79, 84, 65, 83, 75]"
  by (simp add: bytes_of_def build_txt_response.simps)

lemma task_poll_multi_response:
  "build_dns_response 7 [(str_of ''task.mfrggx.example.com'', 16, 1)]
        [(str_of ''task.mfrggx.example.com'', 16, 1, 300,
          [18, 77, 85, 76, 84, 73, 58, 116, 48, 97, 49, 98, 50, 99, 51, 100, 58, 49, 50])]
      = Inr (task_poll_response (bytes_of ''MULTI:t0a1b2c3d:12''))"
  by (simp add: build_dns_response_def pack_uint_def ebind_def encode_domain_def str_of_def
      DOT_def ascii_encode_def task_poll_response_def bytes_of_def upt_rec)

lemma task_poll_notask_response:
  "build_dns_response 7 [(str_of ''task.mfrggx.example.com'', 16, 1)]
        [(str_of ''task.mfrggx.example.com'', 16, 1, 300, [6, 78, 79, 84, 65, 83, 75])]
      = Inr (task_poll_response (bytes_of ''NOTASK''))"
  by (simp add: build_dns_response_def pack_uint_def ebind_def encode_domain_def str_of_def
      DOT_def ascii_encode_def task_poll_response_def bytes_of_def upt_rec)

lemma task_poll_answer:
  assumes h: "handle_task_query ev default_config [str_of ''mfrgg''] 7 now st
      = (Inr (Some payload), st')"
    and r: "build_dns_response 7 [(str_of ''task.mfrggx.example.com'', 16, 1)]
        [(str_of ''task.mfrggx.example.com'', 16, 1, 300, payload)] = Inr resp"
    and ne: "payload \<noteq> []"
  shows "process_query ev default_config task_poll_query now st = (Inr resp, st')"
proof -
  have a: "process_questions ev default_config now 7 [(str_of ''task.mfrggx.example.com'', 16, 1)] st
      = (Inr [(str_of ''task.mfrggx.example.com'', 16, 1, 300, payload)], st')"
    by (simp add: answer_question_def DNS_IN_def DNS_A_def DNS_TXT_def dispatch_task_poll h ne)
       (simp add: default_config_def)
  show ?thesis
    by (simp add: process_query_def process_query_body_def parse_task_poll a r
        del: process_questions.simps)
qed

lemma demo_marker:
  "utf8_encode (str_of ''MULTI:'' @ (str_of ''t'' @ take 8 (str_of ''0a1b2c3d-demo'')) @ [COLON]
       @ py_str_int 12) = Inr (bytes_of ''MULTI:t0a1b2c3d:12'')"
  by (simp add: str_of_def COLON_def py_str_int_def nat_digits.simps utf8_char_def ebind_def
      bytes_of_def)

lemma demo_multi:
  "\<exists>chs. length chs = 12
     \<and> handle_task_query demo_env default_config [str_of ''mfrgg''] 7 0 (demo_state 600)
         = (Inr (Some (build_txt_response (bytes_of ''MULTI:t0a1b2c3d:12''))),
            (demo_state 600)\<lparr>database := ([], []),
               outgoing_messages := (outgoing_messages (demo_state 600))(str_of ''abc'' \<mapsto> chs)\<rparr>)"
proof -
  have c: "0 < chunk_size default_config" by (simp add: default_config_def)
  obtain chs where chs:
    "split_data default_config (replicate 600 65) (str_of ''t'' @ take 8 (str_of ''0a1b2c3d-demo'')) = Inr chs"
    "int (length chs) = (int (length (replicate 600 (65 :: byte))) + chunk_size default_config - 1)
        div chunk_size default_config"
    using split_data_length [OF c] by blast
  have l: "int (length chs) = 12"
    using chs(2) by (simp add: default_config_def)
  have "handle_task_query demo_env default_config [str_of ''mfrgg''] 7 0 (demo_state 600)
      = (Inr (Some (build_txt_response (bytes_of ''MULTI:t0a1b2c3d:12''))),
         (demo_state 600)\<lparr>database := ([], []),
            outgoing_messages := (outgoing_messages (demo_state 600))(str_of ''abc'' \<mapsto> chs)\<rparr>)"
    using demo_marker
    by (simp add: handle_task_query_def resolve_demo pull_demo chs(1) l Let_def)
  with l show ?thesis by auto
qed

lemma first_poll_demo:
  "\<exists>chs. length chs = 12
     \<and> process_query demo_env default_config task_poll_query 0 (demo_state 600)
         = (Inr (task_poll_response (bytes_of ''MULTI:t0a1b2c3d:12'')),
            (demo_state 600)\<lparr>database := ([], []),
               outgoing_messages := (outgoing_messages (demo_state 600))(str_of ''abc'' \<mapsto> chs)\<rparr>)"
proof -
  obtain chs where l: "length chs = 12"
    and h: "handle_task_query demo_env default_config [str_of ''mfrgg''] 7 0 (demo_state 600)
         = (Inr (Some [18, 77, 85, 76, 84, 73, 58, 116, 48, 97, 49, 98, 50, 99, 51, 100, 58, 49, 50]),
            (demo_state 600)\<lparr>database := ([], []),
               outgoing_messages := (outgoing_messages (demo_state 600))(str_of ''abc'' \<mapsto> chs)\<rparr>)"
    using demo_multi unfolding multi_marker_bytes by blast
  have "process_query demo_env default_config task_poll_query 0 (demo_state 600)
         = (Inr (task_poll_response (bytes_of ''MULTI:t0a1b2c3d:12'')),
            (demo_state 600)\<lparr>database := ([], []),
               outgoing_messages := (outgoing_messages (demo_state 600))(str_of ''abc'' \<mapsto> chs)\<rparr>)"
    by (rule task_poll_answer [OF h task_poll_multi_response]) simp
  with l show ?thesis by blast
qed

text \<open>
  C4, at the failing input. A task of 600 bytes is pending for the agent. Its first poll
  is answered \<^verbatim>\<open>MULTI:t0a1b2c3d:12\<close> and the 12 chunks are queued under the agent id, as
  the claim says. The claim then promises one chunk per subsequent poll; the same poll
  sent again is answered \<^verbatim>\<open>NOTASK\<close> and the 12 chunks are still queued. Nothing reads
  \<open>outgoing_messages\<close>: the response to any datagram, and the rest of the state after it,
  are the same whatever the queue holds, so no query of any shape fetches a chunk.
\<close>

theorem multi_chunks_never_delivered:
  "fst (process_query demo_env default_config task_poll_query 0 (demo_state 600))
     = Inr (task_poll_response (bytes_of ''MULTI:t0a1b2c3d:12''))
   \<and> map_option length (outgoing_messages demo_after_multi (str_of ''abc'')) = Some 12
   \<and> fst (process_query demo_env default_config task_poll_query 1 demo_after_multi)
       = Inr (task_poll_response (bytes_of ''NOTASK''))
   \<and> map_option length (outgoing_messages
         (snd (process_query demo_env default_config task_poll_query 1 demo_after_multi))
         (str_of ''abc'')) = Some 12
   \<and> fst (process_query ev cfg data now (st\<lparr>outgoing_messages := og\<rparr>))
       = fst (process_query ev cfg data now st)
   \<and> same_but_queue (snd (process_query ev cfg data now (st\<lparr>outgoing_messages := og\<rparr>)))
       (snd (process_query ev cfg data now st))"
proof -
  obtain chs where l: "length chs = 12"
    and f: "process_query demo_env default_config task_poll_query 0 (demo_state 600)
         = (Inr (task_poll_response (bytes_of ''MULTI:t0a1b2c3d:12'')),
            (demo_state 600)\<lparr>database := ([], []),
               outgoing_messages := (outgoing_messages (demo_state 600))(str_of ''abc'' \<mapsto> chs)\<rparr>)"
    using first_poll_demo by blast
  have s: "demo_after_multi = (demo_state 600)\<lparr>database := ([], []),
        outgoing_messages := (outgoing_messages (demo_state 600))(str_of ''abc'' \<mapsto> chs)\<rparr>"
    by (simp add: demo_after_multi_def f)
  have r: "resolve_agent_id demo_after_multi 7 [str_of ''mfrgg''] = Inr (str_of ''abc'')"
    using resolve_demo [of 600]
    by (simp add: resolve_agent_id_def s split: if_splits)
  have p: "pull_task demo_env (str_of ''abc'') 1 (database demo_after_multi) = (Inr None, ([], []))"
    by (simp add: s demo_env_def)
  have h: "handle_task_query demo_env default_config [str_of ''mfrgg''] 7 1 demo_after_multi
      = (Inr (Some [6, 78, 79, 84, 65, 83, 75]), demo_after_multi\<lparr>database := ([], [])\<rparr>)"
    by (simp add: handle_task_query_def r p notask_bytes)
  have np: "process_query demo_env default_config task_poll_query 1 demo_after_multi
      = (Inr (task_poll_response (bytes_of ''NOTASK'')), demo_after_multi\<lparr>database := ([], [])\<rparr>)"
    by (rule task_poll_answer [OF h task_poll_notask_response]) simp
  have q: "same_but_queue (st\<lparr>outgoing_messages := og\<rparr>) st"
    by (simp add: same_but_queue_def)
  have a: "fst (process_query demo_env default_config task_poll_query 0 (demo_state 600))
     = Inr (task_poll_response (bytes_of ''MULTI:t0a1b2c3d:12''))"
    by (simp add: f)
  have b: "map_option length (outgoing_messages demo_after_multi (str_of ''abc'')) = Some 12"
    by (simp add: s l)
  have c: "fst (process_query demo_env default_config task_poll_query 1 demo_after_multi)
       = Inr (task_poll_response (bytes_of ''NOTASK''))"
    by (simp add: np)
  have d: "map_option length (outgoing_messages
         (snd (process_query demo_env default_config task_poll_query 1 demo_after_multi))
         (str_of ''abc'')) = Some 12"
    unfolding np by (simp add: s l)
  show ?thesis
    using a b c d process_query_queue [OF q, of ev cfg data now] by blast
qed

end
